theory Spec2Isabelle
  imports Complex_Main "HOL-Library.AList"
begin

section \<open>The motor set of motorset.py\<close>

text \<open>
  The development embeds the class \<open>motorset\<close> of \<open>src/motorset.py\<close>. Python
  objects live in a store and are named by references; the fields of the motor set
  hold references, as the Python attributes do. A raised exception is the left
  injection of a sum, and every operation returns the state it leaves behind, also
  when it raises: Python does not undo the mutations made before an exception.

  The Motor Unit class (\<open>dcmotorbasic.motor\<close>) and \<open>logger.makeClassInstance\<close> are
  not part of the sources. They enter every definition as parameters:
  \<^item> \<open>invoke meth args m\<close> is the method call \<open>getattr(m, meth)(*args)\<close> on a motor
    object in state \<open>m\<close>: its result or exception, and the motor's state afterwards;
  \<^item> \<open>name_of m\<close> is the attribute read \<open>m.name\<close>;
  \<^item> \<open>mkMotor\<close>, \<open>mkQuad\<close> and \<open>mkService\<close> are the three calls of
    \<open>logger.makeClassInstance\<close>: the object built, or the exception raised.
  A method of a motor acts on that motor's own object.
\<close>

subsection \<open>Exceptions, references, dictionaries\<close>

datatype error =
    TypeError string
  | KeyError string
  | ValueError string
  | Raised string

type_synonym ref = nat

text \<open>
  A Python \<open>dict\<close> (and an \<open>OrderedDict\<close>) is an association list in insertion order:
  \<open>map_of d k\<close> is the lookup, \<open>AList.update k v d\<close> is \<open>d[k] = v\<close> (a new key
  goes to the end, an existing key keeps its place and takes the new value), and
  \<open>map snd d\<close> is \<open>d.values()\<close>.
\<close>

definition getitem :: "(string \<times> 'v) list \<Rightarrow> string \<Rightarrow> error + 'v" where
  "getitem d k = (case map_of d k of None \<Rightarrow> Inl (KeyError k) | Some v \<Rightarrow> Inr v)"

definition contains :: "(string \<times> 'v) list \<Rightarrow> string \<Rightarrow> bool" where
  "contains d k = (map_of d k \<noteq> None)"

subsection \<open>Motor specifications\<close>

text \<open>
  A motor definition is a dict. The constructor reads \<open>mdef['name']\<close> and, when it is
  present, \<open>mdef['rotationsense']['pins']\<close>; every other entry (\<open>className\<close>,
  \<open>mdrive\<close>, \<open>logtypes\<close>, ...) is only handed on to \<open>makeClassInstance\<close>. Every
  definition carries a name, as the configuration file requires; \<open>rotationsense\<close>,
  when present, is a dict, and its \<open>pins\<close>, when present, a sequence of pin numbers.
\<close>

record rotationsense_def =
  pins :: "nat list option"

record 'x mdef =
  name :: string
  rotationsense :: "rotationsense_def option"
  others :: 'x

subsection \<open>The state\<close>

text \<open>
  \<open>sharedServices\<close>, \<open>motors\<close> and \<open>quadmon\<close> are the attributes of the motor set;
  \<open>motor_heap\<close> and \<open>service_heap\<close> hold the objects the references stand for, and
  \<open>fresh\<close> is the next unused reference.
\<close>

record ('m, 's) state =
  sharedServices :: "(string \<times> ref) list"
  motors :: "(string \<times> ref) list"
  quadmon :: "ref option"
  motor_heap :: "ref \<Rightarrow> 'm"
  service_heap :: "ref \<Rightarrow> 's"
  fresh :: ref

text \<open>
  The \<open>mlist\<close> parameter as the class docstring gives it: \<open>None\<close>, a string, or a
  tuple, list or array of names, that is, a sequence that can be read more than once
  (\<open>_delist\<close> reads it twice).
\<close>

datatype selector = AllMotors | OneName string | NameList "string list"

text \<open>What an operation returns: \<open>None\<close>, a per-motor result as it is, or a dict.\<close>

datatype 'r retval = NoneVal | Unwrapped 'r | Dict "(string \<times> 'r) list"

definition new_motor :: "'m \<Rightarrow> ('m, 's) state \<Rightarrow> ref \<times> ('m, 's) state" where
  "new_motor m s =
     (fresh s, s\<lparr>motor_heap := (motor_heap s)(fresh s := m), fresh := Suc (fresh s)\<rparr>)"

definition new_service :: "'s \<Rightarrow> ('m, 's) state \<Rightarrow> ref \<times> ('m, 's) state" where
  "new_service v s =
     (fresh s, s\<lparr>service_heap := (service_heap s)(fresh s := v), fresh := Suc (fresh s)\<rparr>)"

subsection \<open>Construction\<close>

text \<open>
  The condition of line 39: \<open>'rotationsense' in mdef and 'pins' in mdef['rotationsense']
  and len(mdef['rotationsense']['pins'])==2\<close>; the result is the pin list when it holds.
\<close>

definition quad_pins :: "'x mdef \<Rightarrow> nat list option" where
  "quad_pins d =
     (case rotationsense d of
        None \<Rightarrow> None
      | Some rs \<Rightarrow>
          (case pins rs of
             None \<Rightarrow> None
           | Some ps \<Rightarrow> if length ps = 2 then Some ps else None))"

text \<open>The loop of lines 38 to 40, which fills \<open>qd\<close>.\<close>

fun collect_quads ::
  "'x mdef list \<Rightarrow> (string \<times> nat list) list \<Rightarrow> (string \<times> nat list) list" where
  "collect_quads [] qd = qd"
| "collect_quads (d # ds) qd =
     (case quad_pins d of
        Some ps \<Rightarrow> collect_quads ds (AList.update (name d) ps qd)
      | None \<Rightarrow> collect_quads ds qd)"

text \<open>The loop of lines 47 and 48.\<close>

fun make_motors ::
  "('x mdef \<Rightarrow> error + 'm) \<Rightarrow> 'x mdef list \<Rightarrow> ('m, 's) state \<Rightarrow> error + ('m, 's) state" where
  "make_motors mkMotor [] s = Inr s"
| "make_motors mkMotor (d # ds) s =
     (case mkMotor d of
        Inl e \<Rightarrow> Inl e
      | Inr m \<Rightarrow>
          (case new_motor m s of
             (a, s') \<Rightarrow>
               make_motors mkMotor ds (s'\<lparr>motors := AList.update (name d) a (motors s')\<rparr>)))"

text \<open>
  \<open>motorset.__init__\<close>. \<open>motordefs\<close> defaults to \<open>None\<close>, and iterating over
  \<open>None\<close> raises a \<open>TypeError\<close>. When the constructor raises, the caller receives no
  motor set: the result is the exception alone. The \<open>print\<close> of line 42 and the
  registration of \<open>close\<close> with \<open>atexit\<close> do not change the state.
\<close>

definition not_iterable :: error where
  "not_iterable =
     TypeError (CHR 0x27 # ''NoneType'' @ CHR 0x27 # '' object is not iterable'')"

definition setup_quadmon ::
  "((string \<times> nat list) list \<Rightarrow> 'q \<Rightarrow> error + 's) \<Rightarrow> 'x mdef list option \<Rightarrow>
   'q option \<Rightarrow> ('m, 's) state \<Rightarrow> error + ('m, 's) state" where
  "setup_quadmon mkQuad motordefs quadmonitor s =
     (case quadmonitor of
        None \<Rightarrow> Inr (s\<lparr>quadmon := None\<rparr>)
      | Some qm \<Rightarrow>
          (case motordefs of
             None \<Rightarrow> Inl not_iterable
           | Some ds \<Rightarrow>
               (let qd = collect_quads ds [] in
                if qd \<noteq> [] then
                  (case mkQuad qd qm of
                     Inl e \<Rightarrow> Inl e
                   | Inr q \<Rightarrow>
                       (case new_service q s of (a, s') \<Rightarrow> Inr (s'\<lparr>quadmon := Some a\<rparr>)))
                else Inr (s\<lparr>quadmon := None\<rparr>))))"

definition init ::
  "('x mdef \<Rightarrow> error + 'm) \<Rightarrow> ((string \<times> nat list) list \<Rightarrow> 'q \<Rightarrow> error + 's) \<Rightarrow>
   'x mdef list option \<Rightarrow> 'q option \<Rightarrow> ('m, 's) state \<Rightarrow> error + ('m, 's) state" where
  "init mkMotor mkQuad motordefs quadmonitor s =
     (case setup_quadmon mkQuad motordefs quadmonitor (s\<lparr>sharedServices := [], motors := []\<rparr>) of
        Inl e \<Rightarrow> Inl e
      | Inr s' \<Rightarrow>
          (case motordefs of
             None \<Rightarrow> Inl not_iterable
           | Some ds \<Rightarrow> make_motors mkMotor ds s'))"

subsection \<open>The shared service broker\<close>

definition needservice ::
  "(string \<Rightarrow> 'k \<Rightarrow> error + 's) \<Rightarrow> string \<Rightarrow> string \<Rightarrow> 'k \<Rightarrow> ('m, 's) state \<Rightarrow>
   (error + ref) \<times> ('m, 's) state" where
  "needservice mkService sname className servargs s =
     (if \<not> contains (sharedServices s) sname then
        (case mkService className servargs of
           Inl e \<Rightarrow> (Inl e, s)
         | Inr serv \<Rightarrow>
             (case new_service serv s of
                (a, s') \<Rightarrow>
                  (let s'' = s'\<lparr>sharedServices := AList.update sname a (sharedServices s')\<rparr>
                   in (getitem (sharedServices s'') sname, s''))))
      else (getitem (sharedServices s) sname, s))"

subsection \<open>Dispatch\<close>

text \<open>One method call on the motor object behind a reference.\<close>

definition call_method ::
  "(string \<Rightarrow> 'a list \<Rightarrow> 'm \<Rightarrow> (error + 'r) \<times> 'm) \<Rightarrow> ref \<Rightarrow> string \<Rightarrow> 'a list \<Rightarrow>
   ('m, 's) state \<Rightarrow> (error + 'r) \<times> ('m, 's) state" where
  "call_method invoke a meth args s =
     (case invoke meth args (motor_heap s a) of
        (res, m') \<Rightarrow> (res, s\<lparr>motor_heap := (motor_heap s)(a := m')\<rparr>))"

text \<open>
  The statement loop \<open>for u in us: u.meth()\<close> of \<open>stopMotor\<close>, \<open>close\<close> and \<open>ticker\<close>:
  the results are dropped, the first exception ends the loop.
\<close>

fun call_each ::
  "(string \<Rightarrow> 'a list \<Rightarrow> 'm \<Rightarrow> (error + 'r) \<times> 'm) \<Rightarrow> string \<Rightarrow> ref list \<Rightarrow>
   ('m, 's) state \<Rightarrow> (error + 'r retval) \<times> ('m, 's) state" where
  "call_each invoke meth [] s = (Inr NoneVal, s)"
| "call_each invoke meth (u # us) s =
     (case call_method invoke u meth [] s of
        (Inl e, s') \<Rightarrow> (Inl e, s')
      | (Inr r, s') \<Rightarrow> call_each invoke meth us s')"

text \<open>The list comprehension \<open>[self.motors[m] for m in units]\<close>.\<close>

fun lookup_all :: "(string \<times> ref) list \<Rightarrow> string list \<Rightarrow> error + ref list" where
  "lookup_all d [] = Inr []"
| "lookup_all d (m # ms) =
     (case getitem d m of
        Inl e \<Rightarrow> Inl e
      | Inr a \<Rightarrow> (case lookup_all d ms of Inl e \<Rightarrow> Inl e | Inr as \<Rightarrow> Inr (a # as)))"

definition unknown_name :: "string \<Rightarrow> error" where
  "unknown_name u = ValueError (u @ '' is not a known motor name'')"

text \<open>
  \<open>_delist\<close> and \<open>stopMotor\<close> call each other: on the first name of a list that is not
  a key of \<open>self.motors\<close>, \<open>_delist\<close> runs \<open>self.stopMotor()\<close> and then raises. The
  loop of lines 177 to 180 changes nothing before it meets such a name, so it is the
  search for the first one.
\<close>

function (sequential) delist ::
    "(string \<Rightarrow> 'a list \<Rightarrow> 'm \<Rightarrow> (error + 'r) \<times> 'm) \<Rightarrow> selector \<Rightarrow> ('m, 's) state \<Rightarrow>
     (error + ref list) \<times> ('m, 's) state"
  and stopMotor ::
    "(string \<Rightarrow> 'a list \<Rightarrow> 'm \<Rightarrow> (error + 'r) \<times> 'm) \<Rightarrow> selector \<Rightarrow> ('m, 's) state \<Rightarrow>
     (error + 'r retval) \<times> ('m, 's) state" where
  "delist invoke AllMotors s = (Inr (map snd (motors s)), s)"
| "delist invoke (OneName n) s =
     (if contains (motors s) n then
        (case getitem (motors s) n of Inl e \<Rightarrow> (Inl e, s) | Inr a \<Rightarrow> (Inr [a], s))
      else (Inl (unknown_name n), s))"
| "delist invoke (NameList ns) s =
     (case find (\<lambda>u. \<not> contains (motors s) u) ns of
        Some u \<Rightarrow>
          (case stopMotor invoke AllMotors s of
             (Inl e, s') \<Rightarrow> (Inl e, s')
           | (Inr r, s') \<Rightarrow> (Inl (unknown_name u), s'))
      | None \<Rightarrow> (lookup_all (motors s) ns, s))"
| "stopMotor invoke mlist s =
     (case delist invoke mlist s of
        (Inl e, s') \<Rightarrow> (Inl e, s')
      | (Inr us, s') \<Rightarrow> call_each invoke ''stop'' us s')"
  by pat_completeness auto
termination
  by (relation "measure (\<lambda>x. case x of
        Inl (i, u, s) \<Rightarrow> (if u = AllMotors then 0 else 2)
      | Inr (i, u, s) \<Rightarrow> (if u = AllMotors then 1 else 3))") auto

text \<open>
  The dict comprehension of line 185,
  \<open>{m.name: getattr(m, method)(*args, **kwargs) for m in self.motors.values()}\<close>:
  \<open>acc\<close> is the dict built so far. An exception of a call ends the comprehension
  and leaves the motors called before it as their calls left them.
\<close>

fun call_values ::
  "(string \<Rightarrow> 'a list \<Rightarrow> 'm \<Rightarrow> (error + 'r) \<times> 'm) \<Rightarrow> ('m \<Rightarrow> string) \<Rightarrow> string \<Rightarrow> 'a list \<Rightarrow>
   ref list \<Rightarrow> (string \<times> 'r) list \<Rightarrow> ('m, 's) state \<Rightarrow>
   (error + (string \<times> 'r) list) \<times> ('m, 's) state" where
  "call_values invoke name_of meth args [] acc s = (Inr acc, s)"
| "call_values invoke name_of meth args (a # as) acc s =
     (let k = name_of (motor_heap s a) in
      case call_method invoke a meth args s of
        (Inl e, s') \<Rightarrow> (Inl e, s')
      | (Inr r, s') \<Rightarrow> call_values invoke name_of meth args as (AList.update k r acc) s')"

text \<open>
  The dict comprehension of line 189,
  \<open>{m: getattr(self.motors[m], method)(*args, **kwargs) for m in units}\<close>: each name
  is looked up when its turn comes, and a name that is not a key raises \<open>KeyError\<close>
  there.
\<close>

fun call_names ::
  "(string \<Rightarrow> 'a list \<Rightarrow> 'm \<Rightarrow> (error + 'r) \<times> 'm) \<Rightarrow> string \<Rightarrow> 'a list \<Rightarrow>
   string list \<Rightarrow> (string \<times> 'r) list \<Rightarrow> ('m, 's) state \<Rightarrow>
   (error + (string \<times> 'r) list) \<times> ('m, 's) state" where
  "call_names invoke meth args [] acc s = (Inr acc, s)"
| "call_names invoke meth args (m # ms) acc s =
     (case getitem (motors s) m of
        Inl e \<Rightarrow> (Inl e, s)
      | Inr a \<Rightarrow>
          (case call_method invoke a meth args s of
             (Inl e, s') \<Rightarrow> (Inl e, s')
           | (Inr r, s') \<Rightarrow> call_names invoke meth args ms (AList.update m r acc) s'))"

text \<open>\<open>_listcall\<close>.\<close>

definition listcall ::
  "(string \<Rightarrow> 'a list \<Rightarrow> 'm \<Rightarrow> (error + 'r) \<times> 'm) \<Rightarrow> ('m \<Rightarrow> string) \<Rightarrow> selector \<Rightarrow> string \<Rightarrow>
   'a list \<Rightarrow> ('m, 's) state \<Rightarrow> (error + 'r retval) \<times> ('m, 's) state" where
  "listcall invoke name_of units meth args s =
     (case units of
        AllMotors \<Rightarrow>
          (case call_values invoke name_of meth args (map snd (motors s)) [] s of
             (Inl e, s') \<Rightarrow> (Inl e, s')
           | (Inr d, s') \<Rightarrow> (Inr (Dict d), s'))
      | OneName n \<Rightarrow>
          (case getitem (motors s) n of
             Inl e \<Rightarrow> (Inl e, s)
           | Inr a \<Rightarrow>
               (case call_method invoke a meth args s of
                  (Inl e, s') \<Rightarrow> (Inl e, s')
                | (Inr r, s') \<Rightarrow> (Inr (Unwrapped r), s')))
      | NameList ns \<Rightarrow>
          (case call_names invoke meth args ns [] s of
             (Inl e, s') \<Rightarrow> (Inl e, s')
           | (Inr d, s') \<Rightarrow> (Inr (Dict d), s')))"

subsection \<open>The operations of the motor set\<close>

definition lastMotorPosition where
  "lastMotorPosition invoke name_of mlist = listcall invoke name_of mlist ''lastPosition'' []"

definition lastMotorRPM where
  "lastMotorRPM invoke name_of mlist = listcall invoke name_of mlist ''lastRPM'' []"

definition motorInvert where
  "motorInvert invoke name_of inv_flag mlist = listcall invoke name_of mlist ''invert'' [inv_flag]"

definition motorFrequency where
  "motorFrequency invoke name_of f mlist = listcall invoke name_of mlist ''frequency'' [f]"

definition motorDC where
  "motorDC invoke name_of dutycycle mlist = listcall invoke name_of mlist ''DC'' [dutycycle]"

definition motorSpeedLimits where
  "motorSpeedLimits invoke name_of mlist = listcall invoke name_of mlist ''speedLimits'' []"

definition motorSpeed where
  "motorSpeed invoke name_of speed mlist = listcall invoke name_of mlist ''speed'' [speed]"

definition motorFeedbackParam where
  "motorFeedbackParam invoke name_of paramdetails mlist =
     listcall invoke name_of mlist ''feedbackParam'' [paramdetails]"

definition motorTargetSpeed where
  "motorTargetSpeed invoke name_of tspeed mlist =
     listcall invoke name_of mlist ''targetSpeed'' [tspeed]"

text \<open>
  \<open>close\<close>: \<open>m.close()\<close> on every motor, the pause of \<open>time.sleep(.5)\<close> (no change of
  state), then \<open>self.motors = {}\<close>. The branch on \<open>self.quadmon\<close> is \<open>pass\<close>.
\<close>

definition close ::
  "(string \<Rightarrow> 'a list \<Rightarrow> 'm \<Rightarrow> (error + 'r) \<times> 'm) \<Rightarrow> ('m, 's) state \<Rightarrow>
   (error + 'r retval) \<times> ('m, 's) state" where
  "close invoke s =
     (case delist invoke AllMotors s of
        (Inl e, s') \<Rightarrow> (Inl e, s')
      | (Inr us, s') \<Rightarrow>
          (case call_each invoke ''close'' us s' of
             (Inl e, s'') \<Rightarrow> (Inl e, s'')
           | (Inr r, s'') \<Rightarrow> (Inr NoneVal, s''\<lparr>motors := []\<rparr>)))"

definition ticker ::
  "(string \<Rightarrow> 'a list \<Rightarrow> 'm \<Rightarrow> (error + 'r) \<times> 'm) \<Rightarrow> ('m, 's) state \<Rightarrow>
   (error + 'r retval) \<times> ('m, 's) state" where
  "ticker invoke s = call_each invoke ''ticker'' (map snd (motors s)) s"

subsection \<open>Well-formed motor sets\<close>

text \<open>
  What \<open>__init__\<close> establishes (\<open>init_consistent\<close> below): a dict has no key twice,
  every motor object was built by a call of its own and so no two names share an
  object, and a motor built from \<open>name = k\<close> answers \<open>k\<close> to \<open>m.name\<close>. The
  dispatch operations keep the first two, and the third as long as no method changes
  the name of its motor.
\<close>

definition consistent :: "('m \<Rightarrow> string) \<Rightarrow> ('m, 's) state \<Rightarrow> bool" where
  "consistent name_of s =
     (distinct (map fst (motors s)) \<and> distinct (map snd (motors s)) \<and>
      list_all (\<lambda>(k, a). name_of (motor_heap s a) = k) (motors s))"

text \<open>The outcome of one method call on the object behind \<open>a\<close>, read off the state.\<close>

definition result_of ::
  "(string \<Rightarrow> 'a list \<Rightarrow> 'm \<Rightarrow> (error + 'r) \<times> 'm) \<Rightarrow> string \<Rightarrow> 'a list \<Rightarrow> ('m, 's) state \<Rightarrow>
   ref \<Rightarrow> error + 'r" where
  "result_of invoke meth args s a = fst (invoke meth args (motor_heap s a))"

definition after_call ::
  "(string \<Rightarrow> 'a list \<Rightarrow> 'm \<Rightarrow> (error + 'r) \<times> 'm) \<Rightarrow> string \<Rightarrow> 'a list \<Rightarrow> ('m, 's) state \<Rightarrow>
   ref \<Rightarrow> 'm" where
  "after_call invoke meth args s a = snd (invoke meth args (motor_heap s a))"

definition succeeds ::
  "(string \<Rightarrow> 'a list \<Rightarrow> 'm \<Rightarrow> (error + 'r) \<times> 'm) \<Rightarrow> string \<Rightarrow> 'a list \<Rightarrow> ('m, 's) state \<Rightarrow>
   ref \<Rightarrow> bool" where
  "succeeds invoke meth args s a = (\<not> isl (result_of invoke meth args s a))"

text \<open>
  \<open>called invoke meth args A s\<close> is the state in which exactly the motor objects with
  a reference in \<open>A\<close> have received the call \<open>meth(*args)\<close>, each once, and
  nothing else has changed.
\<close>

definition called ::
  "(string \<Rightarrow> 'a list \<Rightarrow> 'm \<Rightarrow> (error + 'r) \<times> 'm) \<Rightarrow> string \<Rightarrow> 'a list \<Rightarrow> ref set \<Rightarrow>
   ('m, 's) state \<Rightarrow> ('m, 's) state" where
  "called invoke meth args A s =
     s\<lparr>motor_heap :=
         (\<lambda>a. if a \<in> A then after_call invoke meth args s a else motor_heap s a)\<rparr>"

subsection \<open>A two-motor set\<close>

text \<open>
  Modelled from the spec: the Motor Unit, whose class (\<open>dcmotorbasic.motor\<close>) is not
  among the sources. It keeps its name, its commanded duty cycle and whether it was
  closed; \<open>DC\<close> sets the duty cycle and returns it, \<open>stop\<close> and \<open>close\<close> command zero
  drive output, \<open>lastRPM\<close> is a query, and any other method name is an
  \<open>AttributeError\<close>. A motor with duty cycle zero is idle.
\<close>

record motor_unit =
  unit_name :: string
  dutycycle :: real
  unit_closed :: bool

definition unit_invoke :: "string \<Rightarrow> real list \<Rightarrow> motor_unit \<Rightarrow> (error + real) \<times> motor_unit" where
  "unit_invoke meth args m =
     (if meth = ''DC'' then
        (case args of
           [d] \<Rightarrow> (Inr d, m\<lparr>dutycycle := d\<rparr>)
         | _ \<Rightarrow> (Inl (TypeError ''DC takes one argument''), m))
      else if meth = ''stop'' then (Inr 0, m\<lparr>dutycycle := 0\<rparr>)
      else if meth = ''close'' then (Inr 0, m\<lparr>dutycycle := 0, unit_closed := True\<rparr>)
      else if meth = ''ticker'' then (Inr 0, m)
      else if meth = ''lastRPM'' then (Inr 0, m)
      else (Inl (Raised ''AttributeError''), m))"

definition unit_make :: "unit mdef \<Rightarrow> error + motor_unit" where
  "unit_make d = Inr \<lparr>unit_name = name d, dutycycle = 0, unit_closed = False\<rparr>"

text \<open>
  Modelled from the spec: the shared monitor and the shared services, built by
  \<open>logger.makeClassInstance\<close>, which is not among the sources. A monitor is the
  \<open>motorquads\<close> mapping it was given; a service is its class name and arguments.
\<close>

definition quad_make :: "(string \<times> nat list) list \<Rightarrow> unit \<Rightarrow> error + (string \<times> nat list) list" where
  "quad_make qd qm = Inr qd"

definition service_make :: "string \<Rightarrow> nat list \<Rightarrow> error + (string \<times> nat list) list" where
  "service_make className servargs = Inr [(className, servargs)]"

text \<open>The store before the motor set is built, and the two motors of the spec's example.\<close>

definition store0 :: "(motor_unit, (string \<times> nat list) list) state" where
  "store0 =
     \<lparr>sharedServices = [], motors = [], quadmon = None,
      motor_heap = (\<lambda>a. \<lparr>unit_name = [], dutycycle = 0, unit_closed = False\<rparr>),
      service_heap = (\<lambda>a. []), fresh = 0\<rparr>"

definition left_def :: "unit mdef" where
  "left_def = \<lparr>name = ''left'', rotationsense = None, others = ()\<rparr>"

definition right_def :: "unit mdef" where
  "right_def = \<lparr>name = ''right'', rotationsense = None, others = ()\<rparr>"


definition two_motors :: "(motor_unit, (string \<times> nat list) list) state" where
  "two_motors =
     \<lparr>sharedServices = [], motors = [(''left'', 0), (''right'', 1)], quadmon = None,
      motor_heap = (\<lambda>a. \<lparr>unit_name = [], dutycycle = 0, unit_closed = False\<rparr>)
        (0 := \<lparr>unit_name = ''left'', dutycycle = 0, unit_closed = False\<rparr>,
         1 := \<lparr>unit_name = ''right'', dutycycle = 0, unit_closed = False\<rparr>),
      service_heap = (\<lambda>a. []), fresh = 2\<rparr>"

text \<open>The same set with both motors running at duty cycle one half.\<close>

definition two_running :: "(motor_unit, (string \<times> nat list) list) state" where
  "two_running =
     \<lparr>sharedServices = [], motors = [(''left'', 0), (''right'', 1)], quadmon = None,
      motor_heap = (\<lambda>a. \<lparr>unit_name = [], dutycycle = 0, unit_closed = False\<rparr>)
        (0 := \<lparr>unit_name = ''left'', dutycycle = 1 / 2, unit_closed = False\<rparr>,
         1 := \<lparr>unit_name = ''right'', dutycycle = 1 / 2, unit_closed = False\<rparr>),
      service_heap = (\<lambda>a. []), fresh = 2\<rparr>"

subsection \<open>Frames\<close>

text \<open>\<open>heap_only s s'\<close>: the two states differ in the motor objects at most.\<close>

definition heap_only :: "('m, 's) state \<Rightarrow> ('m, 's) state \<Rightarrow> bool" where
  "heap_only s s' = (s' = s\<lparr>motor_heap := motor_heap s'\<rparr>)"

section \<open>What the dispatch operations leave alone\<close>

lemma heap_only_refl: "heap_only s s"
  by (simp add: heap_only_def)

lemma heap_only_trans: "heap_only s s' \<Longrightarrow> heap_only s' s'' \<Longrightarrow> heap_only s s''"
  unfolding heap_only_def
  by (metis state.update_convs(4) state.surjective state.select_convs)

lemma heap_only_fields:
  "heap_only s s' \<Longrightarrow>
     motors s' = motors s \<and> sharedServices s' = sharedServices s \<and> quadmon s' = quadmon s \<and>
     service_heap s' = service_heap s \<and> fresh s' = fresh s"
  unfolding heap_only_def by (metis state.select_convs state.surjective state.update_convs(4))

lemma call_method_heap_only: "heap_only s (snd (call_method invoke a meth args s))"
  by (simp add: call_method_def heap_only_def split: prod.splits)

lemma call_each_heap_only: "heap_only s (snd (call_each invoke meth us s))"
proof (induction us arbitrary: s)
  case Nil
  show ?case by (simp add: heap_only_refl)
next
  case (Cons u us)
  have step: "heap_only s (snd (call_method invoke u meth [] s))"
    by (rule call_method_heap_only)
  show ?case
  proof (cases "call_method invoke u meth [] s")
    case (Pair res s')
    with step have hs: "heap_only s s'" by simp
    show ?thesis
    proof (cases res)
      case (Inl e)
      with Pair hs show ?thesis by simp
    next
      case (Inr r)
      with Pair have "snd (call_each invoke meth (u # us) s) = snd (call_each invoke meth us s')"
        by simp
      with heap_only_trans [OF hs Cons.IH [of s']] show ?thesis by simp
    qed
  qed
qed


lemma call_values_heap_only:
  "heap_only s (snd (call_values invoke name_of meth args as acc s))"
proof (induction as arbitrary: acc s)
  case Nil
  show ?case by (simp add: heap_only_refl)
next
  case (Cons a as)
  show ?case
  proof (cases "call_method invoke a meth args s")
    case (Pair res s')
    with call_method_heap_only [of s invoke a meth args] have hs: "heap_only s s'" by simp
    show ?thesis
    proof (cases res)
      case (Inl e)
      with Pair hs show ?thesis by simp
    next
      case (Inr r)
      with Pair have "snd (call_values invoke name_of meth args (a # as) acc s) =
          snd (call_values invoke name_of meth args as
                 (AList.update (name_of (motor_heap s a)) r acc) s')"
        by simp
      with heap_only_trans [OF hs Cons.IH] show ?thesis by simp
    qed
  qed
qed

lemma call_names_heap_only:
  "heap_only s (snd (call_names invoke meth args ns acc s))"
proof (induction ns arbitrary: acc s)
  case Nil
  show ?case by (simp add: heap_only_refl)
next
  case (Cons n ns)
  show ?case
  proof (cases "getitem (motors s) n")
    case (Inl e)
    then show ?thesis by (simp add: heap_only_refl)
  next
    case (Inr a)
    show ?thesis
    proof (cases "call_method invoke a meth args s")
      case (Pair res s')
      with call_method_heap_only [of s invoke a meth args] have hs: "heap_only s s'" by simp
      show ?thesis
      proof (cases res)
        case (Inl e)
        with Pair hs \<open>getitem (motors s) n = Inr a\<close> show ?thesis by simp
      next
        case Inr2: (Inr r)
        with Pair Inr have "snd (call_names invoke meth args (n # ns) acc s) =
            snd (call_names invoke meth args ns (AList.update n r acc) s')"
          by simp
        with heap_only_trans [OF hs Cons.IH] show ?thesis by simp
      qed
    qed
  qed
qed

lemma listcall_heap_only: "heap_only s (snd (listcall invoke name_of units meth args s))"
proof (cases units)
  case AllMotors
  with call_values_heap_only [of s invoke name_of meth args "map snd (motors s)" "[]"]
  show ?thesis by (auto simp: listcall_def split: prod.splits sum.splits)
next
  case (OneName n)
  show ?thesis
  proof (cases "getitem (motors s) n")
    case (Inl e)
    with OneName show ?thesis by (simp add: listcall_def heap_only_refl)
  next
    case (Inr a)
    with OneName call_method_heap_only [of s invoke a meth args]
    show ?thesis by (auto simp: listcall_def split: prod.splits sum.splits)
  qed
next
  case (NameList ns)
  with call_names_heap_only [of s invoke meth args ns "[]"]
  show ?thesis by (auto simp: listcall_def split: prod.splits sum.splits)
qed

lemma stopMotor_all_heap_only: "heap_only s (snd (stopMotor invoke AllMotors s))"
  using call_each_heap_only [of s invoke "''stop''" "map snd (motors s)"] by simp

lemma delist_heap_only: "heap_only s (snd (delist invoke units s))"
proof (cases units)
  case AllMotors
  then show ?thesis by (simp add: heap_only_refl)
next
  case (OneName n)
  then show ?thesis by (simp add: heap_only_refl split: sum.splits)
next
  case (NameList ns)
  with stopMotor_all_heap_only [of s invoke]
  show ?thesis by (auto simp: heap_only_refl split: option.splits prod.splits sum.splits)
qed

lemma stopMotor_heap_only: "heap_only s (snd (stopMotor invoke units s))"
proof (cases "delist invoke units s")
  case (Pair res s')
  with delist_heap_only [of s invoke units] have hs: "heap_only s s'" by simp
  show ?thesis
  proof (cases res)
    case (Inl e)
    with Pair hs show ?thesis by simp
  next
    case (Inr us)
    with Pair heap_only_trans [OF hs call_each_heap_only [of s' invoke "''stop''" us]]
    show ?thesis by simp
  qed
qed

lemma ticker_heap_only: "heap_only s (snd (ticker invoke s))"
  by (simp add: ticker_def call_each_heap_only)

lemma needservice_motors: "motors (snd (needservice mkService sname className servargs s)) = motors s"
  by (simp add: needservice_def new_service_def Let_def split: sum.splits)

text \<open>
  C10. No dispatch operation changes the motor mapping: after \<open>_listcall\<close> (with any
  method name, so after every query and every mutating per-motor operation), after
  \<open>stopMotor\<close> and after \<open>ticker\<close>, \<open>self.motors\<close> holds the same names in the same
  order, bound to the same objects. This holds for every selector, valid or not, and
  also when a motor raises. Asking the broker for a service leaves the mapping alone
  as well; only \<open>__init__\<close> and \<open>close\<close> assign to \<open>self.motors\<close>.
\<close>

theorem dispatch_keeps_motor_mapping:
  "motors (snd (listcall invoke name_of units meth args s)) = motors s \<and>
   motors (snd (stopMotor invoke units s)) = motors s \<and>
   motors (snd (ticker invoke s)) = motors s \<and>
   motors (snd (needservice mkService sname className servargs s)) = motors s"
  using heap_only_fields [OF listcall_heap_only [of s invoke name_of units meth args]]
    heap_only_fields [OF stopMotor_heap_only [of s invoke units]]
    heap_only_fields [OF ticker_heap_only [of s invoke]]
    needservice_motors [of mkService sname className servargs s]
  by simp

section \<open>The shared service broker\<close>

lemma update_new_key: "map_of d k = None \<Longrightarrow> AList.update k v d = d @ [(k, v)]"
  by (induction d) (auto split: if_splits)

lemma needservice_hit:
  "map_of (sharedServices s) key = Some a \<Longrightarrow>
   needservice mkService key className servargs s = (Inr a, s)"
  by (simp add: needservice_def contains_def getitem_def)

lemma needservice_miss:
  assumes "\<not> contains (sharedServices s) key" and "mkService className servargs = Inr serv"
  shows "needservice mkService key className servargs s =
    (Inr (fresh s),
     s\<lparr>service_heap := (service_heap s)(fresh s := serv), fresh := Suc (fresh s),
       sharedServices := sharedServices s @ [(key, fresh s)]\<rparr>)"
  using assms
  by (simp add: needservice_def contains_def getitem_def new_service_def Let_def update_new_key
      map_add_def)

text \<open>
  C4. \<open>needservice\<close> is idempotent in its key. When the key is not yet in
  \<open>sharedServices\<close> and \<open>makeClassInstance\<close> builds the service from the class name
  and arguments supplied, the call returns a reference to that new object and adds it
  to the dict under the key; a second call with the same key, whatever class name and
  arguments it is given, returns the same reference and leaves the state, the dict
  included, exactly as it was. More generally, a call with a key that is in the dict
  returns the reference stored there and changes nothing.
\<close>

theorem needservice_first_writer_wins:
  "(\<not> contains (sharedServices s) key \<and> mkService className servargs = Inr serv \<longrightarrow>
      fst (needservice mkService key className servargs s) = Inr (fresh s) \<and>
      service_heap (snd (needservice mkService key className servargs s)) (fresh s) = serv \<and>
      sharedServices (snd (needservice mkService key className servargs s)) =
        sharedServices s @ [(key, fresh s)] \<and>
      needservice mkService' key className' servargs'
          (snd (needservice mkService key className servargs s)) =
        (Inr (fresh s), snd (needservice mkService key className servargs s))) \<and>
   (map_of (sharedServices s) key = Some a \<longrightarrow>
      needservice mkService' key className' servargs' s = (Inr a, s))"
proof (intro conjI impI)
  assume h: "\<not> contains (sharedServices s) key \<and> mkService className servargs = Inr serv"
  let ?s1 = "s\<lparr>service_heap := (service_heap s)(fresh s := serv), fresh := Suc (fresh s),
       sharedServices := sharedServices s @ [(key, fresh s)]\<rparr>"
  from h have first: "needservice mkService key className servargs s = (Inr (fresh s), ?s1)"
    by (simp add: needservice_miss)
  from h have "map_of (sharedServices ?s1) key = Some (fresh s)"
    by (simp add: contains_def map_add_def)
  then have again: "needservice mkService' key className' servargs' ?s1 = (Inr (fresh s), ?s1)"
    by (rule needservice_hit)
  show "fst (needservice mkService key className servargs s) = Inr (fresh s)"
    by (simp add: first)
  show "service_heap (snd (needservice mkService key className servargs s)) (fresh s) = serv"
    by (simp add: first)
  show "sharedServices (snd (needservice mkService key className servargs s)) =
        sharedServices s @ [(key, fresh s)]"
    by (simp add: first)
  show "needservice mkService' key className' servargs'
          (snd (needservice mkService key className servargs s)) =
        (Inr (fresh s), snd (needservice mkService key className servargs s))"
    using again by (simp add: first)
next
  assume "map_of (sharedServices s) key = Some a"
  then show "needservice mkService' key className' servargs' s = (Inr a, s)"
    by (rule needservice_hit)
qed

theorem needservice_first_writer_wins_witness:
  "fst (needservice service_make ''quad'' ''quadmon.monitor'' [17, 18] two_motors) = Inr 2 \<and>
   service_heap (snd (needservice service_make ''quad'' ''quadmon.monitor'' [17, 18] two_motors)) 2
     = [(''quadmon.monitor'', [17, 18])] \<and>
   fst (needservice service_make ''quad'' ''other.cls'' [5]
     (snd (needservice service_make ''quad'' ''quadmon.monitor'' [17, 18] two_motors))) = Inr 2 \<and>
   snd (needservice service_make ''quad'' ''other.cls'' [5]
     (snd (needservice service_make ''quad'' ''quadmon.monitor'' [17, 18] two_motors))) =
     snd (needservice service_make ''quad'' ''quadmon.monitor'' [17, 18] two_motors) \<and>
   needservice service_make ''quad'' ''other.cls'' [5]
       (two_motors\<lparr>sharedServices := [(''quad'', 7)]\<rparr>) =
     (Inr 7, two_motors\<lparr>sharedServices := [(''quad'', 7)]\<rparr>)"
proof -
  have miss: "\<not> contains (sharedServices two_motors) ''quad''"
    by (simp add: two_motors_def contains_def)
  have built: "service_make ''quadmon.monitor'' [17, 18] = Inr [(''quadmon.monitor'', [17, 18])]"
    by (simp add: service_make_def)
  have f: "fresh two_motors = 2" by (simp add: two_motors_def)
  have hit: "map_of (sharedServices (two_motors\<lparr>sharedServices := [(''quad'', 7)]\<rparr>)) ''quad'' = Some 7"
    by simp
  from needservice_first_writer_wins [of two_motors "''quad''" service_make "''quadmon.monitor''"
      "[17, 18]" "[(''quadmon.monitor'', [17, 18])]" service_make "''other.cls''" "[5]" 0]
    needservice_first_writer_wins [of "two_motors\<lparr>sharedServices := [(''quad'', 7)]\<rparr>" "''quad''"
      service_make "''quadmon.monitor''" "[17, 18]" "[(''quadmon.monitor'', [17, 18])]"
      service_make "''other.cls''" "[5]" 7]
    miss built f hit
  show ?thesis by simp
qed

section \<open>Shutdown and the broker\<close>

text \<open>
  C5. The claim is that \<open>close\<close> releases the broker's entries when it discards the
  motor mapping. The code does not do so: on the two-motor set, after one service was
  requested from the broker, \<open>close\<close> returns, the motor mapping is empty, and
  \<open>sharedServices\<close> still holds the service. The docstring of \<open>close\<close> says that it
  completely shuts down the instance, and its branch on \<open>self.quadmon\<close> is \<open>pass\<close>
  with the teardown left as a comment.
\<close>

theorem close_leaves_broker_entry:
  "fst (close unit_invoke
          (snd (needservice service_make ''quad'' ''quadmon.monitor'' [17, 18] two_motors))) =
     Inr NoneVal \<and>
   motors (snd (close unit_invoke
          (snd (needservice service_make ''quad'' ''quadmon.monitor'' [17, 18] two_motors)))) = [] \<and>
   sharedServices (snd (close unit_invoke
          (snd (needservice service_make ''quad'' ''quadmon.monitor'' [17, 18] two_motors)))) =
     [(''quad'', 2)]"
  by (simp add: close_def call_method_def unit_invoke_def two_motors_def needservice_def
      contains_def getitem_def new_service_def service_make_def)

section \<open>Construction\<close>

lemma update_keys_new:
  "k \<notin> fst ` set d \<Longrightarrow> AList.update k v d = d @ [(k, v)]"
  by (rule update_new_key) (simp add: map_of_eq_None_iff)

lemma make_motors_distinct:
  assumes "\<forall>d\<in>set ds. \<not> isl (mkMotor d)"
    and "distinct (map name ds)"
    and "\<forall>d\<in>set ds. name d \<notin> fst ` set (motors s)"
  shows "\<exists>s'. make_motors mkMotor ds s = Inr s' \<and>
           motors s' = motors s @ zip (map name ds) [fresh s ..< fresh s + length ds] \<and>
           fresh s' = fresh s + length ds \<and>
           (\<forall>a < fresh s. motor_heap s' a = motor_heap s a) \<and>
           (\<forall>i < length ds. mkMotor (ds ! i) = Inr (motor_heap s' (fresh s + i))) \<and>
           sharedServices s' = sharedServices s \<and> quadmon s' = quadmon s \<and>
           service_heap s' = service_heap s"
  using assms
proof (induction ds arbitrary: s)
  case Nil
  then show ?case by simp
next
  case (Cons d ds)
  from Cons.prems(1) obtain m where m: "mkMotor d = Inr m"
    by (cases "mkMotor d") auto
  let ?s1 = "s\<lparr>motor_heap := (motor_heap s)(fresh s := m), fresh := Suc (fresh s),
              motors := motors s @ [(name d, fresh s)]\<rparr>"
  from Cons.prems(3) have upd: "AList.update (name d) (fresh s) (motors s) = motors s @ [(name d, fresh s)]"
    by (simp add: update_keys_new)
  have step: "make_motors mkMotor (d # ds) s = make_motors mkMotor ds ?s1"
    by (simp add: m new_motor_def upd)
  have p1: "\<forall>d\<in>set ds. \<not> isl (mkMotor d)" using Cons.prems(1) by simp
  have p2: "distinct (map name ds)" using Cons.prems(2) by simp
  have p3: "\<forall>d'\<in>set ds. name d' \<notin> fst ` set (motors ?s1)"
    using Cons.prems(2,3) by (auto simp: image_iff)
  from Cons.IH [OF p1 p2 p3] obtain s' where
    r: "make_motors mkMotor ds ?s1 = Inr s'"
    and mo: "motors s' = motors ?s1 @ zip (map name ds) [fresh ?s1 ..< fresh ?s1 + length ds]"
    and fr: "fresh s' = fresh ?s1 + length ds"
    and old: "\<forall>a < fresh ?s1. motor_heap s' a = motor_heap ?s1 a"
    and new: "\<forall>i < length ds. mkMotor (ds ! i) = Inr (motor_heap s' (fresh ?s1 + i))"
    and rest: "sharedServices s' = sharedServices ?s1" "quadmon s' = quadmon ?s1"
      "service_heap s' = service_heap ?s1"
    by blast
  have a: "motors s' = motors s @ zip (map name (d # ds)) [fresh s ..< fresh s + length (d # ds)]"
  proof -
    have "[fresh s ..< fresh s + length (d # ds)] =
        fresh s # [Suc (fresh s) ..< Suc (fresh s) + length ds]"
      by (simp add: upt_conv_Cons del: upt_Suc)
    with mo show ?thesis by (simp del: upt_Suc)
  qed
  have b: "fresh s' = fresh s + length (d # ds)" using fr by simp
  have c: "\<forall>a < fresh s. motor_heap s' a = motor_heap s a" using old by simp
  have e: "\<forall>i < length (d # ds). mkMotor ((d # ds) ! i) = Inr (motor_heap s' (fresh s + i))"
  proof (intro allI impI)
    fix i assume i: "i < length (d # ds)"
    show "mkMotor ((d # ds) ! i) = Inr (motor_heap s' (fresh s + i))"
    proof (cases i)
      case 0
      with old m show ?thesis by simp
    next
      case (Suc j)
      with i new show ?thesis by simp
    qed
  qed
  from step r a b c e rest show ?case by simp
qed


lemma collect_quads_empty:
  "collect_quads ds qd = [] \<longleftrightarrow> qd = [] \<and> (\<forall>d\<in>set ds. quad_pins d = None)"
  by (induction ds arbitrary: qd) (auto simp: update_nonempty split: option.splits)



lemma quad_pins_pair: "quad_pins d = Some ps \<Longrightarrow> length ps = 2"
  by (auto simp: quad_pins_def split: option.splits if_splits)

lemma setup_quadmon_none:
  "setup_quadmon mkQuad (Some ds) None s = Inr (s\<lparr>quadmon := None\<rparr>)"
  by (simp add: setup_quadmon_def)

lemma setup_quadmon_no_lines:
  "\<forall>d\<in>set ds. quad_pins d = None \<Longrightarrow>
   setup_quadmon mkQuad (Some ds) (Some qm) s = Inr (s\<lparr>quadmon := None\<rparr>)"
  by (simp add: setup_quadmon_def collect_quads_empty)

lemma setup_quadmon_lines:
  "\<exists>d\<in>set ds. quad_pins d \<noteq> None \<Longrightarrow> mkQuad (collect_quads ds []) qm = Inr q \<Longrightarrow>
   setup_quadmon mkQuad (Some ds) (Some qm) s =
     Inr (s\<lparr>service_heap := (service_heap s)(fresh s := q), fresh := Suc (fresh s),
            quadmon := Some (fresh s)\<rparr>)"
  by (simp add: setup_quadmon_def collect_quads_empty new_service_def)

lemma setup_quadmon_fails:
  "\<exists>d\<in>set ds. quad_pins d \<noteq> None \<Longrightarrow> mkQuad (collect_quads ds []) qm = Inl e \<Longrightarrow>
   setup_quadmon mkQuad (Some ds) (Some qm) s = Inl e"
  by (simp add: setup_quadmon_def collect_quads_empty)


lemma make_motors_Cons:
  "make_motors mkMotor (d # ds) s = Inr s' \<Longrightarrow>
   \<exists>m. mkMotor d = Inr m \<and>
       make_motors mkMotor ds
         (s\<lparr>motor_heap := (motor_heap s)(fresh s := m), fresh := Suc (fresh s),
            motors := AList.update (name d) (fresh s) (motors s)\<rparr>) = Inr s'"
  by (cases "mkMotor d") (simp_all add: new_motor_def)







lemma make_motors_distinct_keys:
  "make_motors mkMotor ds s = Inr s' \<Longrightarrow> distinct (map fst (motors s)) \<Longrightarrow>
   distinct (map fst (motors s'))"
proof (induction ds arbitrary: s)
  case Nil
  then show ?case by simp
next
  case (Cons d ds)
  from make_motors_Cons [OF Cons.prems(1)] obtain m where
    r: "make_motors mkMotor ds
         (s\<lparr>motor_heap := (motor_heap s)(fresh s := m), fresh := Suc (fresh s),
            motors := AList.update (name d) (fresh s) (motors s)\<rparr>) = Inr s'" by blast
  from Cons.prems(2) have "distinct (map fst (AList.update (name d) (fresh s) (motors s)))"
    by (rule distinct_update)
  with Cons.IH [OF r] show ?case by simp
qed




lemma setup_quadmon_ok:
  assumes "\<forall>qm. quadmonitor = Some qm \<longrightarrow>
             (\<forall>d\<in>set ds. quad_pins d = None) \<or> \<not> isl (mkQuad (collect_quads ds []) qm)"
  shows "\<exists>s1. setup_quadmon mkQuad (Some ds) quadmonitor s = Inr s1 \<and> motors s1 = motors s \<and>
           sharedServices s1 = sharedServices s \<and> motor_heap s1 = motor_heap s"
proof (cases quadmonitor)
  case None
  then show ?thesis by (simp add: setup_quadmon_none)
next
  case (Some qm)
  show ?thesis
  proof (cases "\<forall>d\<in>set ds. quad_pins d = None")
    case True
    with Some show ?thesis by (simp add: setup_quadmon_no_lines)
  next
    case False
    with assms Some obtain q where q: "mkQuad (collect_quads ds []) qm = Inr q"
      by (cases "mkQuad (collect_quads ds []) qm") auto
    from False have "\<exists>d\<in>set ds. quad_pins d \<noteq> None" by simp
    from setup_quadmon_lines [where ds = ds and mkQuad = mkQuad and qm = qm and q = q and s = s]
      this q Some
    show ?thesis by simp
  qed
qed

text \<open>
  C7. For a list of motor specifications with pairwise different names, each of which
  \<open>makeClassInstance\<close> builds a motor from (and whose shared monitor, if one is
  called for, is built as well), \<open>__init__\<close> returns a motor set whose mapping has as
  many entries as there are specifications, whose keys in iteration order are the
  names in the order of the specifications, and whose \<open>i\<close>-th entry is bound to the
  motor built from the \<open>i\<close>-th specification.
\<close>

theorem init_keeps_spec_order:
  assumes names: "distinct (map name ds)"
    and built: "\<forall>d\<in>set ds. \<not> isl (mkMotor d)"
    and monitor: "\<forall>qm. quadmonitor = Some qm \<longrightarrow>
             (\<forall>d\<in>set ds. quad_pins d = None) \<or> \<not> isl (mkQuad (collect_quads ds []) qm)"
  shows "\<exists>s'. init mkMotor mkQuad (Some ds) quadmonitor s = Inr s' \<and>
           length (motors s') = length ds \<and>
           map fst (motors s') = map name ds \<and>
           (\<forall>i < length ds. mkMotor (ds ! i) = Inr (motor_heap s' (snd (motors s' ! i))))"
proof -
  let ?s0 = "s\<lparr>sharedServices := [], motors := []\<rparr>"
  from setup_quadmon_ok [where quadmonitor = quadmonitor and ds = ds and mkQuad = mkQuad
      and s = ?s0] monitor
  obtain s1 where
    s1: "setup_quadmon mkQuad (Some ds) quadmonitor ?s0 = Inr s1" and m1: "motors s1 = []"
    by auto
  have nokeys: "\<forall>d\<in>set ds. name d \<notin> fst ` set (motors s1)" by (simp add: m1)
  from make_motors_distinct [OF built names nokeys] obtain s' where
    r: "make_motors mkMotor ds s1 = Inr s'"
    and mo: "motors s' = motors s1 @ zip (map name ds) [fresh s1 ..< fresh s1 + length ds]"
    and new: "\<forall>i < length ds. mkMotor (ds ! i) = Inr (motor_heap s' (fresh s1 + i))"
    by blast
  from mo m1 have mo': "motors s' = zip (map name ds) [fresh s1 ..< fresh s1 + length ds]"
    by simp
  have i: "init mkMotor mkQuad (Some ds) quadmonitor s = Inr s'"
    by (simp add: init_def s1 r)
  have l: "length (motors s') = length ds" by (simp add: mo')
  have k: "map fst (motors s') = map name ds" by (simp add: mo')
  have h: "\<forall>i < length ds. mkMotor (ds ! i) = Inr (motor_heap s' (snd (motors s' ! i)))"
    using new by (simp add: mo')
  from i l k h show ?thesis by blast
qed

theorem init_keeps_spec_order_witness:
  "\<exists>s'. init unit_make quad_make (Some [left_def, right_def]) None store0 = Inr s' \<and>
        length (motors s') = 2 \<and> map fst (motors s') = [''left'', ''right'']"
proof -
  have names: "distinct (map name [left_def, right_def])"
    by (simp add: left_def_def right_def_def)
  have built: "\<forall>d\<in>set [left_def, right_def]. \<not> isl (unit_make d)"
    by (simp add: unit_make_def)
  from init_keeps_spec_order [where ds = "[left_def, right_def]" and mkMotor = unit_make
      and mkQuad = quad_make and quadmonitor = None and s = store0] names built
  obtain s' where i: "init unit_make quad_make (Some [left_def, right_def]) None store0 = Inr s'"
    and l: "length (motors s') = length [left_def, right_def]"
    and k: "map fst (motors s') = map name [left_def, right_def]"
    by auto
  from l have l': "length (motors s') = 2" by simp
  from k have k': "map fst (motors s') = [''left'', ''right'']"
    by (simp add: left_def_def right_def_def)
  show ?thesis
    by (rule exI [of _ s']) (simp only: i l' k' simp_thms)
qed







section \<open>The constructor builds a well-formed motor set\<close>

text \<open>
  When the motor class keeps the name it is built with, every motor set that
  \<open>__init__\<close> returns is \<open>consistent\<close>, whether or not names repeat in the
  specifications.
\<close>

lemma update_member:
  "p \<in> set (AList.update k v al) \<Longrightarrow> p = (k, v) \<or> p \<in> set al"
  by (induction al) (auto split: if_splits)

lemma update_fresh_ref:
  "distinct (map snd al) \<Longrightarrow> v \<notin> snd ` set al \<Longrightarrow> distinct (map snd (AList.update k v al))"
proof (induction al)
  case Nil
  show ?case by simp
next
  case (Cons p al)
  show ?case
  proof (cases "fst p = k")
    case True
    with Cons.prems show ?thesis by (auto simp: image_iff)
  next
    case False
    from Cons.prems have d: "distinct (map snd al)" and v: "v \<notin> snd ` set al"
      and p: "snd p \<notin> snd ` set al" and pv: "snd p \<noteq> v"
      by (auto simp: image_iff)
    have "snd p \<notin> snd ` set (AList.update k v al)"
    proof
      assume "snd p \<in> snd ` set (AList.update k v al)"
      then obtain q where q: "q \<in> set (AList.update k v al)" "snd q = snd p" by auto
      from update_member [OF q(1)] q(2) p pv show False by (auto simp: image_iff)
    qed
    with Cons.IH [OF d v] False show ?thesis by simp
  qed
qed

lemma make_motors_consistent:
  assumes "make_motors mkMotor ds s = Inr s'"
    and "\<forall>d m. mkMotor d = Inr m \<longrightarrow> name_of m = name d"
    and "distinct (map snd (motors s))"
    and "\<forall>p\<in>set (motors s). name_of (motor_heap s (snd p)) = fst p \<and> snd p < fresh s"
  shows "distinct (map snd (motors s')) \<and>
         (\<forall>p\<in>set (motors s'). name_of (motor_heap s' (snd p)) = fst p \<and> snd p < fresh s')"
  using assms
proof (induction ds arbitrary: s)
  case Nil
  then show ?case by simp
next
  case (Cons d ds)
  let ?s1 = "\<lambda>m. s\<lparr>motor_heap := (motor_heap s)(fresh s := m), fresh := Suc (fresh s),
            motors := AList.update (name d) (fresh s) (motors s)\<rparr>"
  from make_motors_Cons [OF Cons.prems(1)] obtain m where
    m: "mkMotor d = Inr m" and r: "make_motors mkMotor ds (?s1 m) = Inr s'" by blast
  from Cons.prems(2) m have nm: "name_of m = name d" by blast
  from Cons.prems(4) have "fresh s \<notin> snd ` set (motors s)" by (auto simp: image_iff)
  with Cons.prems(3) have p3: "distinct (map snd (motors (?s1 m)))"
    by (simp add: update_fresh_ref)
  have p4: "\<forall>p\<in>set (motors (?s1 m)).
      name_of (motor_heap (?s1 m) (snd p)) = fst p \<and> snd p < fresh (?s1 m)"
  proof
    fix p assume "p \<in> set (motors (?s1 m))"
    then have "p \<in> set (AList.update (name d) (fresh s) (motors s))" by simp
    from update_member [OF this] show
      "name_of (motor_heap (?s1 m) (snd p)) = fst p \<and> snd p < fresh (?s1 m)"
    proof
      assume "p = (name d, fresh s)"
      with nm show ?thesis by simp
    next
      assume "p \<in> set (motors s)"
      with Cons.prems(4) have "name_of (motor_heap s (snd p)) = fst p" and "snd p < fresh s"
        by auto
      then show ?thesis by simp
    qed
  qed
  from Cons.IH [OF r Cons.prems(2) p3 p4] show ?case .
qed

lemma setup_quadmon_motors:
  "setup_quadmon mkQuad motordefs quadmonitor s = Inr s1 \<Longrightarrow> motors s1 = motors s"
  by (auto simp: setup_quadmon_def new_service_def Let_def
      split: option.splits sum.splits if_splits)

lemma init_consistent:
  assumes "init mkMotor mkQuad motordefs quadmonitor s = Inr s'"
    and "\<forall>d m. mkMotor d = Inr m \<longrightarrow> name_of m = name d"
  shows "consistent name_of s'"
proof -
  from assms(1) obtain s1 ds where
    q: "setup_quadmon mkQuad motordefs quadmonitor (s\<lparr>sharedServices := [], motors := []\<rparr>) = Inr s1"
    and r: "make_motors mkMotor ds s1 = Inr s'"
    by (auto simp: init_def split: sum.splits option.splits)
  from setup_quadmon_motors [OF q] have m1: "motors s1 = []" by simp
  from make_motors_distinct_keys [OF r] m1 have dk: "distinct (map fst (motors s'))" by simp
  from make_motors_consistent [OF r assms(2)] m1
  have "distinct (map snd (motors s')) \<and>
      (\<forall>p\<in>set (motors s'). name_of (motor_heap s' (snd p)) = fst p \<and> snd p < fresh s')"
    by simp
  with dk show ?thesis
    by (auto simp: consistent_def list_all_iff)
qed

section \<open>Which motors a dispatch reaches\<close>

declare delist.simps [simp del] stopMotor.simps [simp del]

lemma called_empty: "called invoke meth args {} s = s"
  by (simp add: called_def)

lemma called_fields:
  "motors (called invoke meth args A s) = motors s \<and>
   sharedServices (called invoke meth args A s) = sharedServices s \<and>
   quadmon (called invoke meth args A s) = quadmon s \<and>
   service_heap (called invoke meth args A s) = service_heap s \<and>
   fresh (called invoke meth args A s) = fresh s"
  by (simp add: called_def)

lemma heap_cong: "h = h' \<Longrightarrow> s\<lparr>motor_heap := h\<rparr> = s\<lparr>motor_heap := h'\<rparr>"
  by simp

lemma call_method_called:
  "call_method invoke a meth args s =
     (result_of invoke meth args s a, called invoke meth args {a} s)"
proof -
  obtain res m' where i: "invoke meth args (motor_heap s a) = (res, m')"
    by (cases "invoke meth args (motor_heap s a)")
  have "(motor_heap s)(a := m') =
      (\<lambda>b. if b \<in> {a} then snd (invoke meth args (motor_heap s b)) else motor_heap s b)"
    by (rule ext) (simp add: i)
  then have "s\<lparr>motor_heap := (motor_heap s)(a := m')\<rparr> = called invoke meth args {a} s"
    unfolding called_def after_call_def by (rule heap_cong)
  with i show ?thesis
    by (simp add: call_method_def result_of_def)
qed

lemma called_then_called:
  assumes u: "u \<notin> A"
  shows "called invoke meth args A (called invoke meth args {u} s) =
     called invoke meth args (insert u A) s"
proof (rule state.equality)
  show "motor_heap (called invoke meth args A (called invoke meth args {u} s)) =
      motor_heap (called invoke meth args (insert u A) s)"
    using u by (auto simp: called_def after_call_def fun_eq_iff)
qed (simp_all add: called_def)

lemma result_after_other_call:
  "a \<noteq> u \<Longrightarrow>
   result_of invoke meth args (called invoke meth' args' {u} s) a = result_of invoke meth args s a"
  by (simp add: result_of_def called_def)

lemma heap_after_other_call:
  "a \<noteq> u \<Longrightarrow> motor_heap (called invoke meth args {u} s) a = motor_heap s a"
  by (simp add: called_def)

lemma call_each_ok:
  assumes "distinct us" and "\<forall>a\<in>set us. succeeds invoke meth [] s a"
  shows "call_each invoke meth us s = (Inr NoneVal, called invoke meth [] (set us) s)"
  using assms
proof (induction us arbitrary: s)
  case Nil
  show ?case by (simp add: called_empty)
next
  case (Cons u us)
  let ?s1 = "called invoke meth [] {u} s"
  from Cons.prems(2) obtain r where r: "result_of invoke meth [] s u = Inr r"
    by (cases "result_of invoke meth [] s u") (auto simp: succeeds_def)
  have step: "call_each invoke meth (u # us) s = call_each invoke meth us ?s1"
    by (simp add: call_method_called r)
  from Cons.prems(1) have d: "distinct us" and u: "u \<notin> set us" by auto
  have "\<forall>a\<in>set us. succeeds invoke meth [] ?s1 a"
  proof
    fix a assume a: "a \<in> set us"
    with u have "a \<noteq> u" by auto
    with Cons.prems(2) a show "succeeds invoke meth [] ?s1 a"
      by (simp add: succeeds_def result_after_other_call)
  qed
  from Cons.IH [OF d this] step u show ?case
    by (simp add: called_then_called)
qed


lemma stopMotor_all_ok:
  assumes "distinct (map snd (motors s))"
    and "\<forall>a\<in>snd ` set (motors s). succeeds invoke ''stop'' [] s a"
  shows "stopMotor invoke AllMotors s =
           (Inr NoneVal, called invoke ''stop'' [] (snd ` set (motors s)) s)"
  using call_each_ok [of "map snd (motors s)" invoke "''stop''" s] assms
  by (simp add: delist.simps stopMotor.simps)

text \<open>
  C3. \<open>stopMotor\<close> with a list of names of which \<open>u\<close> is the first that is not a key
  of \<open>self.motors\<close>: when no two names share a motor object and \<open>stop\<close> raises on no
  motor of the set, the call raises the \<open>ValueError\<close> for \<open>u\<close>, and it does so after
  \<open>stop\<close> has been called on every motor of the set, once each. The motor mapping is
  unchanged, and every motor of the set is left as its \<open>stop\<close> left it.
\<close>

theorem stop_unknown_name_stops_all:
  assumes refs: "distinct (map snd (motors s))"
    and stops: "\<forall>a\<in>snd ` set (motors s). succeeds invoke ''stop'' [] s a"
    and unknown: "find (\<lambda>u. \<not> contains (motors s) u) ns = Some u"
  shows "stopMotor invoke (NameList ns) s =
           (Inl (unknown_name u), called invoke ''stop'' [] (snd ` set (motors s)) s) \<and>
         motors (snd (stopMotor invoke (NameList ns) s)) = motors s \<and>
         (\<forall>a\<in>snd ` set (motors s).
            motor_heap (snd (stopMotor invoke (NameList ns) s)) a =
              after_call invoke ''stop'' [] s a)"
proof -
  have all: "stopMotor invoke AllMotors s =
      (Inr NoneVal, called invoke ''stop'' [] (snd ` set (motors s)) s)"
    by (rule stopMotor_all_ok [OF refs stops])
  have d: "delist invoke (NameList ns) s =
      (Inl (unknown_name u), called invoke ''stop'' [] (snd ` set (motors s)) s)"
    by (simp only: delist.simps unknown option.case all prod.case sum.case)
  have r: "stopMotor invoke (NameList ns) s =
      (Inl (unknown_name u), called invoke ''stop'' [] (snd ` set (motors s)) s)"
    by (simp only: stopMotor.simps d prod.case sum.case)
  show ?thesis
    by (simp add: r called_def)
qed

theorem stop_unknown_name_stops_all_witness:
  "fst (stopMotor unit_invoke (NameList [''left'', ''nosuch'']) two_running) =
     Inl (ValueError ''nosuch is not a known motor name'') \<and>
   dutycycle (motor_heap two_running 0) = 1 / 2 \<and>
   dutycycle (motor_heap two_running 1) = 1 / 2 \<and>
   dutycycle (motor_heap (snd (stopMotor unit_invoke (NameList [''left'', ''nosuch'']) two_running)) 0) = 0 \<and>
   dutycycle (motor_heap (snd (stopMotor unit_invoke (NameList [''left'', ''nosuch'']) two_running)) 1) = 0"
proof -
  have m: "motors two_running = [(''left'', 0), (''right'', 1)]"
    by (simp add: two_running_def)
  have refs: "distinct (map snd (motors two_running))"
    by (simp add: m)
  have stops: "\<forall>a\<in>snd ` set (motors two_running). succeeds unit_invoke ''stop'' [] two_running a"
    by (simp add: m succeeds_def result_of_def unit_invoke_def)
  have unknown: "find (\<lambda>u. \<not> contains (motors two_running) u) [''left'', ''nosuch''] = Some ''nosuch''"
    by (simp add: m contains_def)
  have h0: "after_call unit_invoke ''stop'' [] two_running 0 =
      \<lparr>unit_name = ''left'', dutycycle = 0, unit_closed = False\<rparr>"
    by (simp add: after_call_def unit_invoke_def two_running_def)
  have h1: "after_call unit_invoke ''stop'' [] two_running 1 =
      \<lparr>unit_name = ''right'', dutycycle = 0, unit_closed = False\<rparr>"
    by (simp add: after_call_def unit_invoke_def two_running_def)
  have d: "dutycycle (motor_heap two_running 0) = 1 / 2 \<and> dutycycle (motor_heap two_running 1) = 1 / 2"
    by (simp add: two_running_def)
  note st = stop_unknown_name_stops_all [OF refs stops unknown]
  from st have e: "fst (stopMotor unit_invoke (NameList [''left'', ''nosuch'']) two_running) =
      Inl (ValueError ''nosuch is not a known motor name'')"
    by (simp add: unknown_name_def)
  from st have hp: "\<forall>a\<in>snd ` set (motors two_running).
      motor_heap (snd (stopMotor unit_invoke (NameList [''left'', ''nosuch'']) two_running)) a =
        after_call unit_invoke ''stop'' [] two_running a"
    by (rule conjunct2 [THEN conjunct2])
  from hp have a0: "motor_heap (snd (stopMotor unit_invoke (NameList [''left'', ''nosuch''])
      two_running)) 0 = after_call unit_invoke ''stop'' [] two_running 0"
    by (simp add: m)
  from hp have a1: "motor_heap (snd (stopMotor unit_invoke (NameList [''left'', ''nosuch''])
      two_running)) 1 = after_call unit_invoke ''stop'' [] two_running 1"
    by (simp add: m)
  have z0: "dutycycle (motor_heap (snd (stopMotor unit_invoke (NameList [''left'', ''nosuch''])
      two_running)) 0) = 0"
    unfolding a0 h0 by simp
  have z1: "dutycycle (motor_heap (snd (stopMotor unit_invoke (NameList [''left'', ''nosuch''])
      two_running)) 1) = 0"
    unfolding a1 h1 by simp
  from d have d0: "dutycycle (motor_heap two_running 0) = 1 / 2"
    and d1: "dutycycle (motor_heap two_running 1) = 1 / 2"
    by (rule conjunct1, rule conjunct2)
  show ?thesis
    by (intro conjI e d0 d1 z0 z1)
qed

section \<open>A closed motor set\<close>

lemma close_ok:
  assumes "distinct (map snd (motors s))"
    and "\<forall>a\<in>snd ` set (motors s). succeeds invoke ''close'' [] s a"
  shows "close invoke s =
           (Inr NoneVal, (called invoke ''close'' [] (snd ` set (motors s)) s)\<lparr>motors := []\<rparr>)"
  using call_each_ok [of "map snd (motors s)" invoke "''close''" s] assms
  by (simp add: close_def delist.simps)

lemma empty_set_dispatch:
  assumes "motors c = []"
  shows "listcall invoke name_of AllMotors meth args c = (Inr (Dict []), c)"
    and "listcall invoke name_of (OneName n) meth args c = (Inl (KeyError n), c)"
    and "listcall invoke name_of (NameList (n # ns)) meth args c = (Inl (KeyError n), c)"
    and "listcall invoke name_of (NameList []) meth args c = (Inr (Dict []), c)"
    and "stopMotor invoke AllMotors c = (Inr NoneVal, c)"
    and "stopMotor invoke (OneName n) c = (Inl (unknown_name n), c)"
    and "stopMotor invoke (NameList (n # ns)) c = (Inl (unknown_name n), c)"
    and "ticker invoke c = (Inr NoneVal, c)"
  using assms
  by (simp_all add: listcall_def getitem_def contains_def ticker_def delist.simps stopMotor.simps)

text \<open>
  C8. When \<open>close\<close> has run (no two names share a motor object and \<open>close\<close> raises on
  no motor, so that \<open>close\<close> returns), the motor mapping is empty, and from then on:
  every operation of \<open>_listcall\<close> without a selector returns the empty dict; with a
  single name, or with a list whose first name is \<open>n\<close>, it raises \<open>KeyError\<close> for that
  name; \<open>stopMotor\<close> with a single name, or with a list whose first name is \<open>n\<close>, raises
  the \<open>ValueError\<close> that says \<open>n\<close> is not a known motor name. A selector that names a
  motor is a single name or a list with at least one name; the empty list names no
  motor, and \<open>_listcall\<close> returns the empty dict for it. None of these calls, nor
  \<open>stopMotor\<close> without a selector nor \<open>ticker\<close>, reaches a motor: each leaves the
  state as it was.
\<close>

theorem closed_set_has_no_motor:
  assumes refs: "distinct (map snd (motors s))"
    and closes: "\<forall>a\<in>snd ` set (motors s). succeeds invoke ''close'' [] s a"
  shows "fst (close invoke s) = Inr NoneVal \<and>
         motors (snd (close invoke s)) = [] \<and>
         listcall invoke name_of AllMotors meth args (snd (close invoke s)) =
           (Inr (Dict []), snd (close invoke s)) \<and>
         listcall invoke name_of (OneName n) meth args (snd (close invoke s)) =
           (Inl (KeyError n), snd (close invoke s)) \<and>
         listcall invoke name_of (NameList (n # ns)) meth args (snd (close invoke s)) =
           (Inl (KeyError n), snd (close invoke s)) \<and>
         listcall invoke name_of (NameList []) meth args (snd (close invoke s)) =
           (Inr (Dict []), snd (close invoke s)) \<and>
         stopMotor invoke AllMotors (snd (close invoke s)) = (Inr NoneVal, snd (close invoke s)) \<and>
         stopMotor invoke (OneName n) (snd (close invoke s)) =
           (Inl (unknown_name n), snd (close invoke s)) \<and>
         stopMotor invoke (NameList (n # ns)) (snd (close invoke s)) =
           (Inl (unknown_name n), snd (close invoke s)) \<and>
         ticker invoke (snd (close invoke s)) = (Inr NoneVal, snd (close invoke s))"
proof -
  have c: "close invoke s =
      (Inr NoneVal, (called invoke ''close'' [] (snd ` set (motors s)) s)\<lparr>motors := []\<rparr>)"
    by (rule close_ok [OF refs closes])
  then have r: "fst (close invoke s) = Inr NoneVal" by simp
  from c have m: "motors (snd (close invoke s)) = []" by simp
  show ?thesis
    by (intro conjI r m empty_set_dispatch [OF m])
qed

theorem closed_set_has_no_motor_witness:
  "fst (close unit_invoke two_running) = Inr NoneVal \<and>
   motors (snd (close unit_invoke two_running)) = [] \<and>
   fst (lastMotorRPM unit_invoke unit_name AllMotors (snd (close unit_invoke two_running))) =
     Inr (Dict []) \<and>
   fst (motorDC unit_invoke unit_name (1 / 2) (OneName ''left'') (snd (close unit_invoke two_running))) =
     Inl (KeyError ''left'') \<and>
   fst (motorDC unit_invoke unit_name (1 / 2) (NameList [''left'', ''right''])
          (snd (close unit_invoke two_running))) =
     Inl (KeyError ''left'') \<and>
   fst (stopMotor unit_invoke (OneName ''left'') (snd (close unit_invoke two_running))) =
     Inl (ValueError ''left is not a known motor name'')"
proof -
  have m: "motors two_running = [(''left'', 0), (''right'', 1)]"
    by (simp add: two_running_def)
  have refs: "distinct (map snd (motors two_running))"
    by (simp add: m)
  have closes: "\<forall>a\<in>snd ` set (motors two_running). succeeds unit_invoke ''close'' [] two_running a"
    by (simp add: m succeeds_def result_of_def unit_invoke_def)
  note st = closed_set_has_no_motor [OF refs closes, of unit_name _ _ "''left''" "[''right'']"]
  have a: "fst (close unit_invoke two_running) = Inr NoneVal"
    using st [of "''lastRPM''" "[]"] by (rule conjunct1)
  have b: "motors (snd (close unit_invoke two_running)) = []"
    using st [of "''lastRPM''" "[]"] by (rule conjunct2 [THEN conjunct1])
  have c: "fst (lastMotorRPM unit_invoke unit_name AllMotors (snd (close unit_invoke two_running))) =
     Inr (Dict [])"
    using st [of "''lastRPM''" "[]"] by (simp add: lastMotorRPM_def)
  have d: "fst (motorDC unit_invoke unit_name (1 / 2) (OneName ''left'')
      (snd (close unit_invoke two_running))) = Inl (KeyError ''left'')"
    using st [of "''DC''" "[1 / 2]"] by (simp add: motorDC_def)
  have e: "fst (motorDC unit_invoke unit_name (1 / 2) (NameList [''left'', ''right''])
          (snd (close unit_invoke two_running))) = Inl (KeyError ''left'')"
    using st [of "''DC''" "[1 / 2]"] by (simp add: motorDC_def)
  have f: "fst (stopMotor unit_invoke (OneName ''left'') (snd (close unit_invoke two_running))) =
     Inl (ValueError ''left is not a known motor name'')"
    using st [of "''DC''" "[1 / 2]"] by (simp add: unknown_name_def)
  show ?thesis
    by (intro conjI a b c d e f)
qed

section \<open>An unknown name in a list\<close>

text \<open>
  C1. The claim is that a mutating operation with a list selector that contains an
  unknown name fails as a whole and mutates no motor. \<open>_listcall\<close> does not check the
  names before it calls: \<open>motorDC(0.5, mlist=['left', 'nosuch'])\<close> on the two-motor
  set raises \<open>KeyError\<close> at \<open>nosuch\<close>, after it has set the duty cycle of \<open>left\<close>, which
  was zero, to one half. \<open>_delist\<close>, the routine that validates a selector for
  \<open>stopMotor\<close>, checks every name before it returns a motor.
\<close>

theorem motorDC_unknown_name_after_known:
  "fst (motorDC unit_invoke unit_name (1 / 2) (NameList [''left'', ''nosuch'']) two_motors) =
     Inl (KeyError ''nosuch'') \<and>
   dutycycle (motor_heap two_motors 0) = 0 \<and>
   dutycycle (motor_heap
     (snd (motorDC unit_invoke unit_name (1 / 2) (NameList [''left'', ''nosuch'']) two_motors)) 0) =
     1 / 2"
  by (simp add: motorDC_def listcall_def getitem_def call_method_def unit_invoke_def
      two_motors_def)

section \<open>The selector and the shape of the result\<close>

lemma succeeds_result:
  "succeeds invoke meth args s a \<Longrightarrow> \<exists>r. result_of invoke meth args s a = Inr r"
  by (cases "result_of invoke meth args s a") (auto simp: succeeds_def)

lemma call_values_ok:
  assumes "distinct as"
    and "\<forall>a\<in>set as. succeeds invoke meth args s a"
    and "distinct (map (\<lambda>a. name_of (motor_heap s a)) as)"
    and "\<forall>a\<in>set as. name_of (motor_heap s a) \<notin> fst ` set acc"
  shows "\<exists>rs. call_values invoke name_of meth args as acc s =
            (Inr (acc @ zip (map (\<lambda>a. name_of (motor_heap s a)) as) rs),
             called invoke meth args (set as) s) \<and>
          list_all2 (\<lambda>a r. result_of invoke meth args s a = Inr r) as rs"
  using assms
proof (induction as arbitrary: acc s)
  case Nil
  show ?case by (simp add: called_empty)
next
  case (Cons a as)
  let ?k = "name_of (motor_heap s a)"
  let ?s1 = "called invoke meth args {a} s"
  from Cons.prems(2) succeeds_result [of invoke meth args s a]
  obtain r where r: "result_of invoke meth args s a = Inr r" by auto
  from Cons.prems(4) have upd: "AList.update ?k r acc = acc @ [(?k, r)]"
    by (simp add: update_keys_new)
  have step: "call_values invoke name_of meth args (a # as) acc s =
      call_values invoke name_of meth args as (acc @ [(?k, r)]) ?s1"
    by (simp add: call_method_called r upd)
  from Cons.prems(1) have d: "distinct as" and a: "a \<notin> set as" by auto
  have same: "motor_heap ?s1 b = motor_heap s b" if "b \<in> set as" for b
  proof -
    from that a have "b \<noteq> a" by auto
    then show ?thesis by (rule heap_after_other_call)
  qed
  have names: "map (\<lambda>b. name_of (motor_heap ?s1 b)) as = map (\<lambda>b. name_of (motor_heap s b)) as"
    using same by simp
  have p2: "\<forall>b\<in>set as. succeeds invoke meth args ?s1 b"
    using Cons.prems(2) same by (simp add: succeeds_def result_of_def)
  have p3: "distinct (map (\<lambda>b. name_of (motor_heap ?s1 b)) as)"
    unfolding names using Cons.prems(3) by simp
  have p4: "\<forall>b\<in>set as. name_of (motor_heap ?s1 b) \<notin> fst ` set (acc @ [(?k, r)])"
  proof
    fix b assume b: "b \<in> set as"
    with Cons.prems(3) have "name_of (motor_heap s b) \<noteq> ?k" by (auto simp: image_iff)
    moreover from b Cons.prems(4) have "name_of (motor_heap s b) \<notin> fst ` set acc" by simp
    ultimately show "name_of (motor_heap ?s1 b) \<notin> fst ` set (acc @ [(?k, r)])"
      using same [OF b] by simp
  qed
  from Cons.IH [OF d p2 p3 p4] obtain rs where
    run: "call_values invoke name_of meth args as (acc @ [(?k, r)]) ?s1 =
        (Inr ((acc @ [(?k, r)]) @ zip (map (\<lambda>b. name_of (motor_heap ?s1 b)) as) rs),
         called invoke meth args (set as) ?s1)"
    and res: "list_all2 (\<lambda>b r. result_of invoke meth args ?s1 b = Inr r) as rs"
    by blast
  have res': "list_all2 (\<lambda>b r. result_of invoke meth args s b = Inr r) as rs"
    using res
  proof (rule list.rel_mono_strong)
    fix b x assume "b \<in> set as" and "result_of invoke meth args ?s1 b = Inr x"
    with same show "result_of invoke meth args s b = Inr x" by (simp add: result_of_def)
  qed
  have st: "called invoke meth args (set as) ?s1 = called invoke meth args (set (a # as)) s"
    using a by (simp add: called_then_called)
  have "call_values invoke name_of meth args (a # as) acc s =
      (Inr (acc @ zip (map (\<lambda>b. name_of (motor_heap s b)) (a # as)) (r # rs)),
       called invoke meth args (set (a # as)) s)"
    unfolding step run names st by simp
  moreover have "list_all2 (\<lambda>b r. result_of invoke meth args s b = Inr r) (a # as) (r # rs)"
    using r res' by simp
  ultimately show ?case by blast
qed


lemma lookup_all_Cons:
  "lookup_all d (n # ns) = Inr as \<Longrightarrow>
   \<exists>a as'. map_of d n = Some a \<and> lookup_all d ns = Inr as' \<and> as = a # as'"
  by (auto simp: getitem_def split: option.splits sum.splits)

lemma lookup_all_refs:
  "lookup_all d ns = Inr as \<Longrightarrow> b \<in> set as \<Longrightarrow> \<exists>n\<in>set ns. map_of d n = Some b"
proof (induction ns arbitrary: as)
  case Nil
  then show ?case by simp
next
  case (Cons n ns)
  from lookup_all_Cons [OF Cons.prems(1)] obtain a as' where
    a: "map_of d n = Some a" and r: "lookup_all d ns = Inr as'" and e: "as = a # as'"
    by blast
  show ?case
  proof (cases "b = a")
    case True
    with a show ?thesis by simp
  next
    case False
    with Cons.prems(2) e have "b \<in> set as'" by simp
    from Cons.IH [OF r this] show ?thesis by auto
  qed
qed

lemma lookup_all_known:
  "lookup_all d ns = Inr as \<Longrightarrow> n \<in> set ns \<Longrightarrow> contains d n"
proof (induction ns arbitrary: as)
  case Nil
  then show ?case by simp
next
  case (Cons m ns)
  from lookup_all_Cons [OF Cons.prems(1)] obtain a as' where
    a: "map_of d m = Some a" and r: "lookup_all d ns = Inr as'"
    by blast
  show ?case
  proof (cases "n = m")
    case True
    with a show ?thesis by (simp add: contains_def)
  next
    case False
    with Cons.prems(2) have "n \<in> set ns" by simp
    from Cons.IH [OF r this] show ?thesis .
  qed
qed

lemma map_of_inj_refs:
  assumes "distinct (map snd d)" and "map_of d n = Some a" and "map_of d m = Some a"
  shows "n = m"
proof -
  from assms(2) have n: "(n, a) \<in> set d" by (rule map_of_SomeD)
  from assms(3) have m: "(m, a) \<in> set d" by (rule map_of_SomeD)
  from assms(1) have i: "inj_on snd (set d)" by (simp add: distinct_map)
  have "snd (n, a) = snd (m, a)" by simp
  from inj_onD [OF i this n m] show ?thesis by simp
qed

lemma lookup_all_distinct:
  "distinct (map snd d) \<Longrightarrow> distinct ns \<Longrightarrow> lookup_all d ns = Inr as \<Longrightarrow> distinct as"
proof (induction ns arbitrary: as)
  case Nil
  then show ?case by simp
next
  case (Cons n ns)
  from lookup_all_Cons [OF Cons.prems(3)] obtain a as' where
    a: "map_of d n = Some a" and r: "lookup_all d ns = Inr as'" and e: "as = a # as'"
    by blast
  from Cons.prems(2) have dn: "distinct ns" and n: "n \<notin> set ns" by auto
  have "a \<notin> set as'"
  proof
    assume "a \<in> set as'"
    from lookup_all_refs [OF r this] obtain m where m: "m \<in> set ns" "map_of d m = Some a"
      by blast
    from map_of_inj_refs [OF Cons.prems(1) a m(2)] m(1) n show False by simp
  qed
  with Cons.IH [OF Cons.prems(1) dn r] e show ?case by simp
qed

lemma call_names_ok:
  assumes "distinct ns"
    and "\<forall>n\<in>set ns. n \<notin> fst ` set acc"
    and "lookup_all (motors s) ns = Inr as"
    and "distinct as"
    and "\<forall>a\<in>set as. succeeds invoke meth args s a"
  shows "\<exists>rs. call_names invoke meth args ns acc s =
            (Inr (acc @ zip ns rs), called invoke meth args (set as) s) \<and>
          list_all2 (\<lambda>a r. result_of invoke meth args s a = Inr r) as rs"
  using assms
proof (induction ns arbitrary: acc s as)
  case Nil
  then show ?case by (simp add: called_empty)
next
  case (Cons n ns)
  from lookup_all_Cons [OF Cons.prems(3)] obtain a as' where
    a: "map_of (motors s) n = Some a" and l: "lookup_all (motors s) ns = Inr as'"
    and e: "as = a # as'"
    by blast
  let ?s1 = "called invoke meth args {a} s"
  from Cons.prems(5) e succeeds_result [of invoke meth args s a]
  obtain r where r: "result_of invoke meth args s a = Inr r" by auto
  from Cons.prems(2) have upd: "AList.update n r acc = acc @ [(n, r)]"
    by (simp add: update_keys_new)
  have step: "call_names invoke meth args (n # ns) acc s =
      call_names invoke meth args ns (acc @ [(n, r)]) ?s1"
    by (simp add: getitem_def a call_method_called r upd)
  from Cons.prems(1) have dn: "distinct ns" and n: "n \<notin> set ns" by auto
  from Cons.prems(4) e have da: "distinct as'" and na: "a \<notin> set as'" by auto
  have same: "motor_heap ?s1 b = motor_heap s b" if "b \<in> set as'" for b
  proof -
    from that na have "b \<noteq> a" by auto
    then show ?thesis by (rule heap_after_other_call)
  qed
  have p2: "\<forall>m\<in>set ns. m \<notin> fst ` set (acc @ [(n, r)])"
    using Cons.prems(2) n by auto
  have p3: "lookup_all (motors ?s1) ns = Inr as'"
    using l by (simp add: called_fields)
  have p5: "\<forall>b\<in>set as'. succeeds invoke meth args ?s1 b"
    using Cons.prems(5) e same by (simp add: succeeds_def result_of_def)
  from Cons.IH [OF dn p2 p3 da p5] obtain rs where
    run: "call_names invoke meth args ns (acc @ [(n, r)]) ?s1 =
        (Inr ((acc @ [(n, r)]) @ zip ns rs), called invoke meth args (set as') ?s1)"
    and res: "list_all2 (\<lambda>b r. result_of invoke meth args ?s1 b = Inr r) as' rs"
    by blast
  have res': "list_all2 (\<lambda>b r. result_of invoke meth args s b = Inr r) as' rs"
    using res
  proof (rule list.rel_mono_strong)
    fix b x assume "b \<in> set as'" and "result_of invoke meth args ?s1 b = Inr x"
    with same show "result_of invoke meth args s b = Inr x" by (simp add: result_of_def)
  qed
  have st: "called invoke meth args (set as') ?s1 = called invoke meth args (set as) s"
    using na e by (simp add: called_then_called)
  have "call_names invoke meth args (n # ns) acc s =
      (Inr (acc @ zip (n # ns) (r # rs)), called invoke meth args (set as) s)"
    unfolding step run st by simp
  moreover have "list_all2 (\<lambda>b r. result_of invoke meth args s b = Inr r) as (r # rs)"
    using r res' e by simp
  ultimately show ?case by blast
qed


lemma consistent_names:
  assumes "consistent name_of s"
  shows "map (\<lambda>a. name_of (motor_heap s a)) (map snd (motors s)) = map fst (motors s)"
proof -
  from assms have "\<forall>p\<in>set (motors s). name_of (motor_heap s (snd p)) = fst p"
    by (auto simp: consistent_def list_all_iff)
  then show ?thesis by simp
qed

lemma listcall_all_ok:
  assumes wf: "consistent name_of s"
    and ok: "\<forall>a\<in>snd ` set (motors s). succeeds invoke meth args s a"
  shows "\<exists>rs. listcall invoke name_of AllMotors meth args s =
            (Inr (Dict (zip (map fst (motors s)) rs)),
             called invoke meth args (snd ` set (motors s)) s) \<and>
          list_all2 (\<lambda>a r. result_of invoke meth args s a = Inr r) (map snd (motors s)) rs"
proof -
  let ?as = "map snd (motors s)"
  from wf have d1: "distinct ?as" and d2: "distinct (map fst (motors s))"
    by (simp_all add: consistent_def)
  have p2: "\<forall>a\<in>set ?as. succeeds invoke meth args s a" using ok by simp
  have p3: "distinct (map (\<lambda>a. name_of (motor_heap s a)) ?as)"
    unfolding consistent_names [OF wf] by (rule d2)
  have p4: "\<forall>a\<in>set ?as. name_of (motor_heap s a) \<notin> fst ` set ([] :: (string \<times> 'd) list)"
    by simp
  from call_values_ok [OF d1 p2 p3 p4] obtain rs where
    run: "call_values invoke name_of meth args ?as [] s =
        (Inr ([] @ zip (map (\<lambda>a. name_of (motor_heap s a)) ?as) rs),
         called invoke meth args (set ?as) s)"
    and res: "list_all2 (\<lambda>a r. result_of invoke meth args s a = Inr r) ?as rs"
    by blast
  have "listcall invoke name_of AllMotors meth args s =
      (Inr (Dict (zip (map fst (motors s)) rs)), called invoke meth args (snd ` set (motors s)) s)"
    unfolding listcall_def selector.case run consistent_names [OF wf] by simp
  with res show ?thesis by blast
qed

lemma listcall_one_ok:
  assumes "map_of (motors s) n = Some a" and "result_of invoke meth args s a = Inr r"
  shows "listcall invoke name_of (OneName n) meth args s =
           (Inr (Unwrapped r), called invoke meth args {a} s)"
  using assms by (simp add: listcall_def getitem_def call_method_called)

lemma listcall_names_ok:
  assumes wf: "consistent name_of s"
    and dn: "distinct ns"
    and known: "lookup_all (motors s) ns = Inr as"
    and ok: "\<forall>a\<in>set as. succeeds invoke meth args s a"
  shows "\<exists>rs. listcall invoke name_of (NameList ns) meth args s =
            (Inr (Dict (zip ns rs)), called invoke meth args (set as) s) \<and>
          list_all2 (\<lambda>a r. result_of invoke meth args s a = Inr r) as rs"
proof -
  from wf have dr: "distinct (map snd (motors s))" by (simp add: consistent_def)
  have da: "distinct as" by (rule lookup_all_distinct [OF dr dn known])
  have p2: "\<forall>n\<in>set ns. n \<notin> fst ` set ([] :: (string \<times> 'd) list)" by simp
  from call_names_ok [OF dn p2 known da ok] obtain rs where
    run: "call_names invoke meth args ns [] s =
        (Inr ([] @ zip ns rs), called invoke meth args (set as) s)"
    and res: "list_all2 (\<lambda>a r. result_of invoke meth args s a = Inr r) as rs"
    by blast
  have "listcall invoke name_of (NameList ns) meth args s =
      (Inr (Dict (zip ns rs)), called invoke meth args (set as) s)"
    unfolding listcall_def selector.case run by simp
  with res show ?thesis by blast
qed

lemma stopMotor_one_ok:
  assumes "map_of (motors s) n = Some a" and "succeeds invoke ''stop'' [] s a"
  shows "stopMotor invoke (OneName n) s = (Inr NoneVal, called invoke ''stop'' [] {a} s)"
proof -
  have d: "delist invoke (OneName n) s = (Inr [a], s)"
    using assms(1) by (simp add: delist.simps contains_def getitem_def)
  have "call_each invoke ''stop'' [a] s = (Inr NoneVal, called invoke ''stop'' [] (set [a]) s)"
    by (rule call_each_ok) (simp_all add: assms(2))
  then show ?thesis
    by (simp add: stopMotor.simps d)
qed

lemma stopMotor_names_ok:
  assumes wf: "consistent name_of s"
    and dn: "distinct ns"
    and known: "lookup_all (motors s) ns = Inr as"
    and ok: "\<forall>a\<in>set as. succeeds invoke ''stop'' [] s a"
  shows "stopMotor invoke (NameList ns) s = (Inr NoneVal, called invoke ''stop'' [] (set as) s)"
proof -
  from wf have dr: "distinct (map snd (motors s))" by (simp add: consistent_def)
  have da: "distinct as" by (rule lookup_all_distinct [OF dr dn known])
  have "find (\<lambda>u. \<not> contains (motors s) u) ns = None"
    using lookup_all_known [OF known] by (simp add: find_None_iff)
  then have d: "delist invoke (NameList ns) s = (Inr as, s)"
    by (simp add: delist.simps known)
  have "call_each invoke ''stop'' as s = (Inr NoneVal, called invoke ''stop'' [] (set as) s)"
    by (rule call_each_ok [OF da ok])
  then show ?thesis
    by (simp add: stopMotor.simps d)
qed

lemma call_names_any_list:
  assumes "lookup_all (motors s) ns = Inr as"
    and "\<forall>m. \<not> isl (fst (invoke meth args m))"
  shows "\<exists>d s'. call_names invoke meth args ns acc s = (Inr d, s') \<and>
           fst ` set d = fst ` set acc \<union> set ns \<and>
           motors s' = motors s \<and>
           (\<forall>b. b \<notin> set as \<longrightarrow> motor_heap s' b = motor_heap s b)"
  using assms
proof (induction ns arbitrary: acc s as)
  case Nil
  then show ?case by simp
next
  case (Cons n ns)
  from lookup_all_Cons [OF Cons.prems(1)] obtain a as' where
    a: "map_of (motors s) n = Some a" and l: "lookup_all (motors s) ns = Inr as'"
    and e: "as = a # as'"
    by blast
  let ?s1 = "called invoke meth args {a} s"
  from Cons.prems(2) [rule_format, of "motor_heap s a"]
  obtain r where r: "result_of invoke meth args s a = Inr r"
    by (cases "result_of invoke meth args s a") (auto simp: result_of_def)
  have step: "call_names invoke meth args (n # ns) acc s =
      call_names invoke meth args ns (AList.update n r acc) ?s1"
    by (simp add: getitem_def a call_method_called r)
  have l1: "lookup_all (motors ?s1) ns = Inr as'"
    using l by (simp add: called_fields)
  from Cons.IH [OF l1 Cons.prems(2), of "AList.update n r acc"] obtain d s' where
    run: "call_names invoke meth args ns (AList.update n r acc) ?s1 = (Inr d, s')"
    and keys: "fst ` set d = fst ` set (AList.update n r acc) \<union> set ns"
    and mo: "motors s' = motors ?s1"
    and fr: "\<forall>b. b \<notin> set as' \<longrightarrow> motor_heap s' b = motor_heap ?s1 b"
    by blast
  have k: "fst ` set d = fst ` set acc \<union> set (n # ns)"
    using keys by (auto simp: dom_update)
  have m: "motors s' = motors s"
    using mo by (simp add: called_fields)
  have f: "\<forall>b. b \<notin> set as \<longrightarrow> motor_heap s' b = motor_heap s b"
  proof (intro allI impI)
    fix b assume "b \<notin> set as"
    with e have "b \<noteq> a" and "b \<notin> set as'" by auto
    with fr show "motor_heap s' b = motor_heap s b"
      by (simp add: heap_after_other_call)
  qed
  have "call_names invoke meth args (n # ns) acc s = (Inr d, s')"
    unfolding step by (rule run)
  with k m f show ?case by blast
qed

lemma listcall_any_list:
  assumes "lookup_all (motors s) ns = Inr as"
    and "\<forall>m. \<not> isl (fst (invoke meth args m))"
  shows "\<exists>d s'. listcall invoke name_of (NameList ns) meth args s = (Inr (Dict d), s') \<and>
           fst ` set d = set ns \<and>
           motors s' = motors s \<and>
           (\<forall>b. b \<notin> set as \<longrightarrow> motor_heap s' b = motor_heap s b)"
proof -
  note any = call_names_any_list [where invoke = invoke and meth = meth and args = args
          and s = s and ns = ns and as = as and acc = "[]", OF assms]
  from any obtain d s' where
    run: "call_names invoke meth args ns [] s = (Inr d, s')"
    and k: "fst ` set d = set ns"
    and m: "motors s' = motors s"
    and f: "\<forall>b. b \<notin> set as \<longrightarrow> motor_heap s' b = motor_heap s b"
    by auto
  have "listcall invoke name_of (NameList ns) meth args s = (Inr (Dict d), s')"
    unfolding listcall_def selector.case run by simp
  with k m f show ?thesis by blast
qed

text \<open>
  C6, as the code has it. On a well-formed motor set, and when the calls made raise
  nothing, every operation that goes through \<open>_listcall\<close> (whatever the method) has
  the shape its selector gives it:
  \<^item> with no selector it calls every motor of the set and returns the dict that maps,
    in the iteration order of \<open>self.motors\<close>, each motor name to that motor's result;
  \<^item> with a single known name it calls that motor alone and returns its result as it
    is;
  \<^item> with a list of known names without repetition it calls the motors named and
    returns the dict that maps each name given, in the order given, to its motor's
    result;
  \<^item> with any list of known names, repeated or not, and a method that raises on no
    motor, it returns a dict whose keys are the names given, and no motor but those
    named has changed.
  In each case the state afterwards is \<open>called ... A s\<close>, with \<open>A\<close> the references of the
  motors selected: those motors received the call once, and no other motor changed.
  \<open>stopMotor\<close> reaches the motors of the selector in the same way, but it returns
  \<open>None\<close> for every selector: it does not go through \<open>_listcall\<close> and has no \<open>return\<close>.
\<close>

theorem listcall_result_shape:
  assumes wf: "consistent name_of s"
  shows
    "((\<forall>a\<in>snd ` set (motors s). succeeds invoke meth args s a) \<longrightarrow>
        (\<exists>rs. listcall invoke name_of AllMotors meth args s =
                 (Inr (Dict (zip (map fst (motors s)) rs)),
                  called invoke meth args (snd ` set (motors s)) s) \<and>
               list_all2 (\<lambda>a r. result_of invoke meth args s a = Inr r)
                 (map snd (motors s)) rs)) \<and>
     (map_of (motors s) n = Some a \<and> result_of invoke meth args s a = Inr r \<longrightarrow>
        listcall invoke name_of (OneName n) meth args s =
          (Inr (Unwrapped r), called invoke meth args {a} s)) \<and>
     (distinct ns \<and> lookup_all (motors s) ns = Inr as \<and>
      (\<forall>a\<in>set as. succeeds invoke meth args s a) \<longrightarrow>
        (\<exists>rs. listcall invoke name_of (NameList ns) meth args s =
                 (Inr (Dict (zip ns rs)), called invoke meth args (set as) s) \<and>
               list_all2 (\<lambda>a r. result_of invoke meth args s a = Inr r) as rs)) \<and>
     (lookup_all (motors s) ns = Inr as \<and> (\<forall>m. \<not> isl (fst (invoke meth args m))) \<longrightarrow>
        (\<exists>d s'. listcall invoke name_of (NameList ns) meth args s = (Inr (Dict d), s') \<and>
                fst ` set d = set ns \<and> motors s' = motors s \<and>
                (\<forall>b. b \<notin> set as \<longrightarrow> motor_heap s' b = motor_heap s b))) \<and>
     ((\<forall>a\<in>snd ` set (motors s). succeeds invoke ''stop'' [] s a) \<longrightarrow>
        stopMotor invoke AllMotors s =
          (Inr NoneVal, called invoke ''stop'' [] (snd ` set (motors s)) s)) \<and>
     (map_of (motors s) n = Some a \<and> succeeds invoke ''stop'' [] s a \<longrightarrow>
        stopMotor invoke (OneName n) s = (Inr NoneVal, called invoke ''stop'' [] {a} s)) \<and>
     (distinct ns \<and> lookup_all (motors s) ns = Inr as \<and>
      (\<forall>a\<in>set as. succeeds invoke ''stop'' [] s a) \<longrightarrow>
        stopMotor invoke (NameList ns) s = (Inr NoneVal, called invoke ''stop'' [] (set as) s))"
proof (intro conjI impI)
  assume "\<forall>a\<in>snd ` set (motors s). succeeds invoke meth args s a"
  then show "\<exists>rs. listcall invoke name_of AllMotors meth args s =
                 (Inr (Dict (zip (map fst (motors s)) rs)),
                  called invoke meth args (snd ` set (motors s)) s) \<and>
               list_all2 (\<lambda>a r. result_of invoke meth args s a = Inr r)
                 (map snd (motors s)) rs"
    by (rule listcall_all_ok [OF wf])
next
  assume "map_of (motors s) n = Some a \<and> result_of invoke meth args s a = Inr r"
  then show "listcall invoke name_of (OneName n) meth args s =
          (Inr (Unwrapped r), called invoke meth args {a} s)"
    by (simp add: listcall_one_ok)
next
  assume h: "distinct ns \<and> lookup_all (motors s) ns = Inr as \<and>
      (\<forall>a\<in>set as. succeeds invoke meth args s a)"
  then have dn: "distinct ns" and known: "lookup_all (motors s) ns = Inr as"
    and ok: "\<forall>a\<in>set as. succeeds invoke meth args s a" by simp_all
  show "\<exists>rs. listcall invoke name_of (NameList ns) meth args s =
                 (Inr (Dict (zip ns rs)), called invoke meth args (set as) s) \<and>
               list_all2 (\<lambda>a r. result_of invoke meth args s a = Inr r) as rs"
    by (rule listcall_names_ok [OF wf dn known ok])
next
  assume h: "lookup_all (motors s) ns = Inr as \<and> (\<forall>m. \<not> isl (fst (invoke meth args m)))"
  then have known: "lookup_all (motors s) ns = Inr as"
    and total: "\<forall>m. \<not> isl (fst (invoke meth args m))" by simp_all
  show "\<exists>d s'. listcall invoke name_of (NameList ns) meth args s = (Inr (Dict d), s') \<and>
                fst ` set d = set ns \<and> motors s' = motors s \<and>
                (\<forall>b. b \<notin> set as \<longrightarrow> motor_heap s' b = motor_heap s b)"
    by (rule listcall_any_list [where invoke = invoke and meth = meth and args = args
          and s = s and ns = ns and as = as, OF known total])
next
  from wf have dr: "distinct (map snd (motors s))" by (simp add: consistent_def)
  assume "\<forall>a\<in>snd ` set (motors s). succeeds invoke ''stop'' [] s a"
  then show "stopMotor invoke AllMotors s =
          (Inr NoneVal, called invoke ''stop'' [] (snd ` set (motors s)) s)"
    by (rule stopMotor_all_ok [OF dr])
next
  assume "map_of (motors s) n = Some a \<and> succeeds invoke ''stop'' [] s a"
  then show "stopMotor invoke (OneName n) s = (Inr NoneVal, called invoke ''stop'' [] {a} s)"
    by (simp add: stopMotor_one_ok)
next
  assume h: "distinct ns \<and> lookup_all (motors s) ns = Inr as \<and>
      (\<forall>a\<in>set as. succeeds invoke ''stop'' [] s a)"
  then have dn: "distinct ns" and known: "lookup_all (motors s) ns = Inr as"
    and ok: "\<forall>a\<in>set as. succeeds invoke ''stop'' [] s a" by simp_all
  show "stopMotor invoke (NameList ns) s = (Inr NoneVal, called invoke ''stop'' [] (set as) s)"
    by (rule stopMotor_names_ok [OF wf dn known ok])
qed

theorem listcall_result_shape_witness:
  "fst (motorDC unit_invoke unit_name (3 / 10) AllMotors two_motors) =
     Inr (Dict [(''left'', 3 / 10), (''right'', 3 / 10)]) \<and>
   dutycycle (motor_heap (snd (motorDC unit_invoke unit_name (3 / 10) AllMotors two_motors)) 0) =
     3 / 10 \<and>
   dutycycle (motor_heap (snd (motorDC unit_invoke unit_name (3 / 10) AllMotors two_motors)) 1) =
     3 / 10 \<and>
   fst (motorDC unit_invoke unit_name (3 / 10) (OneName ''left'') two_motors) =
     Inr (Unwrapped (3 / 10)) \<and>
   dutycycle (motor_heap
     (snd (motorDC unit_invoke unit_name (3 / 10) (OneName ''left'') two_motors)) 0) = 3 / 10 \<and>
   dutycycle (motor_heap
     (snd (motorDC unit_invoke unit_name (3 / 10) (OneName ''left'') two_motors)) 1) = 0 \<and>
   fst (motorDC unit_invoke unit_name (3 / 10) (NameList [''right'']) two_motors) =
     Inr (Dict [(''right'', 3 / 10)]) \<and>
   dutycycle (motor_heap
     (snd (motorDC unit_invoke unit_name (3 / 10) (NameList [''right'']) two_motors)) 0) = 0 \<and>
   (\<exists>d s'. motorDC unit_invoke unit_name (3 / 10) (NameList [''right'', ''right'']) two_motors =
        (Inr (Dict d), s') \<and> fst ` set d = {''right''} \<and>
        motor_heap s' 0 = motor_heap two_motors 0) \<and>
   fst (stopMotor unit_invoke AllMotors two_motors) = Inr NoneVal \<and>
   fst (stopMotor unit_invoke (OneName ''left'') two_motors) = Inr NoneVal \<and>
   fst (stopMotor unit_invoke (NameList [''right'']) two_motors) = Inr NoneVal"
proof -
  have m: "motors two_motors = [(''left'', 0), (''right'', 1)]"
    by (simp add: two_motors_def)
  have h0: "motor_heap two_motors 0 = \<lparr>unit_name = ''left'', dutycycle = 0, unit_closed = False\<rparr>"
    by (simp add: two_motors_def)
  have h1: "motor_heap two_motors (Suc 0) = \<lparr>unit_name = ''right'', dutycycle = 0, unit_closed = False\<rparr>"
    by (simp add: two_motors_def)
  have wf: "consistent unit_name two_motors"
    by (simp add: consistent_def m h0 h1)
  have r0: "result_of unit_invoke ''DC'' [3 / 10] two_motors 0 = Inr (3 / 10)"
    by (simp add: result_of_def unit_invoke_def)
  have r1: "result_of unit_invoke ''DC'' [3 / 10] two_motors (Suc 0) = Inr (3 / 10)"
    by (simp add: result_of_def unit_invoke_def)
  have a0: "dutycycle (after_call unit_invoke ''DC'' [3 / 10] two_motors 0) = 3 / 10"
    by (simp add: after_call_def unit_invoke_def)
  have a1: "dutycycle (after_call unit_invoke ''DC'' [3 / 10] two_motors (Suc 0)) = 3 / 10"
    by (simp add: after_call_def unit_invoke_def)
  have okDC: "\<forall>a\<in>snd ` set (motors two_motors). succeeds unit_invoke ''DC'' [3 / 10] two_motors a"
    by (simp add: m succeeds_def r0 r1)
  have okDC1: "\<forall>a\<in>set [1]. succeeds unit_invoke ''DC'' [3 / 10] two_motors a"
    by (simp add: succeeds_def r1)
  have s0: "succeeds unit_invoke ''stop'' [] two_motors 0"
    by (simp add: succeeds_def result_of_def unit_invoke_def)
  have s1: "succeeds unit_invoke ''stop'' [] two_motors (Suc 0)"
    by (simp add: succeeds_def result_of_def unit_invoke_def)
  have okstop: "\<forall>a\<in>snd ` set (motors two_motors). succeeds unit_invoke ''stop'' [] two_motors a"
    by (simp add: m s0 s1)
  have okstop1: "\<forall>a\<in>set [1]. succeeds unit_invoke ''stop'' [] two_motors a"
    by (simp add: s1)
  have lk: "map_of (motors two_motors) ''left'' = Some 0"
    by (simp add: m)
  have la: "lookup_all (motors two_motors) [''right''] = Inr [1]"
    by (simp add: m getitem_def)
  have dn: "distinct [''right'']" by simp
  note st = listcall_result_shape [OF wf, of unit_invoke "''DC''" "[3 / 10]" "''left''" 0
      "3 / 10" "[''right'']" "[1]"]
  from st okDC obtain rs where
    runA: "listcall unit_invoke unit_name AllMotors ''DC'' [3 / 10] two_motors =
        (Inr (Dict (zip (map fst (motors two_motors)) rs)),
         called unit_invoke ''DC'' [3 / 10] (snd ` set (motors two_motors)) two_motors)"
    and resA: "list_all2 (\<lambda>a r. result_of unit_invoke ''DC'' [3 / 10] two_motors a = Inr r)
        (map snd (motors two_motors)) rs"
    by blast
  from resA have rsA: "rs = [3 / 10, 3 / 10]"
    by (auto simp: m list_all2_Cons1 r0 r1)
  have A1: "fst (motorDC unit_invoke unit_name (3 / 10) AllMotors two_motors) =
     Inr (Dict [(''left'', 3 / 10), (''right'', 3 / 10)])"
    by (simp add: motorDC_def runA rsA m)
  have A2: "dutycycle (motor_heap (snd (motorDC unit_invoke unit_name (3 / 10) AllMotors
      two_motors)) 0) = 3 / 10"
    by (simp add: motorDC_def runA m called_def a0)
  have A3: "dutycycle (motor_heap (snd (motorDC unit_invoke unit_name (3 / 10) AllMotors
      two_motors)) 1) = 3 / 10"
    by (simp add: motorDC_def runA m called_def a1)
  from st lk r0 have runB: "listcall unit_invoke unit_name (OneName ''left'') ''DC'' [3 / 10]
      two_motors = (Inr (Unwrapped (3 / 10)), called unit_invoke ''DC'' [3 / 10] {0} two_motors)"
    by blast
  have B1: "fst (motorDC unit_invoke unit_name (3 / 10) (OneName ''left'') two_motors) =
     Inr (Unwrapped (3 / 10))"
    by (simp add: motorDC_def runB)
  have B2: "dutycycle (motor_heap
     (snd (motorDC unit_invoke unit_name (3 / 10) (OneName ''left'') two_motors)) 0) = 3 / 10"
    by (simp add: motorDC_def runB called_def a0)
  have B3: "dutycycle (motor_heap
     (snd (motorDC unit_invoke unit_name (3 / 10) (OneName ''left'') two_motors)) 1) = 0"
    by (simp add: motorDC_def runB called_def h1)
  from st dn la okDC1 obtain rs' where
    runC: "listcall unit_invoke unit_name (NameList [''right'']) ''DC'' [3 / 10] two_motors =
        (Inr (Dict (zip [''right''] rs')), called unit_invoke ''DC'' [3 / 10] (set [1]) two_motors)"
    and resC: "list_all2 (\<lambda>a r. result_of unit_invoke ''DC'' [3 / 10] two_motors a = Inr r) [1] rs'"
    by blast
  from resC have rsC: "rs' = [3 / 10]"
    by (auto simp: list_all2_Cons1 r1)
  have C1: "fst (motorDC unit_invoke unit_name (3 / 10) (NameList [''right'']) two_motors) =
     Inr (Dict [(''right'', 3 / 10)])"
    by (simp add: motorDC_def runC rsC)
  have C2: "dutycycle (motor_heap
     (snd (motorDC unit_invoke unit_name (3 / 10) (NameList [''right'']) two_motors)) 0) = 0"
    by (simp add: motorDC_def runC called_def h0)
  have total: "\<forall>m. \<not> isl (fst (unit_invoke ''DC'' [3 / 10] m))"
    by (simp add: unit_invoke_def)
  have la2: "lookup_all (motors two_motors) [''right'', ''right''] = Inr [1, 1]"
    by (simp add: m getitem_def)
  from listcall_result_shape [OF wf, of unit_invoke "''DC''" "[3 / 10]" "''left''" 0
      "3 / 10" "[''right'', ''right'']" "[1, 1]"] la2 total
  obtain d s' where
    runE: "listcall unit_invoke unit_name (NameList [''right'', ''right'']) ''DC'' [3 / 10]
        two_motors = (Inr (Dict d), s')"
    and keysE: "fst ` set d = set [''right'', ''right'']"
    and frameE: "\<forall>b. b \<notin> set [1, 1] \<longrightarrow> motor_heap s' b = motor_heap two_motors b"
    by blast
  from keysE have keysE': "fst ` set d = {''right''}" by simp
  from frameE have frameE': "motor_heap s' 0 = motor_heap two_motors 0" by simp
  have E: "\<exists>d s'. motorDC unit_invoke unit_name (3 / 10) (NameList [''right'', ''right''])
        two_motors = (Inr (Dict d), s') \<and> fst ` set d = {''right''} \<and>
        motor_heap s' 0 = motor_heap two_motors 0"
    unfolding motorDC_def
    by (rule exI [of _ d], rule exI [of _ s']) (intro conjI runE keysE' frameE')
  from st okstop have D1: "fst (stopMotor unit_invoke AllMotors two_motors) = Inr NoneVal"
    by simp
  from st lk s0 have D2: "fst (stopMotor unit_invoke (OneName ''left'') two_motors) = Inr NoneVal"
    by simp
  from st dn la okstop1
  have D3: "fst (stopMotor unit_invoke (NameList [''right'']) two_motors) = Inr NoneVal"
    by simp
  show ?thesis
    by (intro conjI A1 A2 A3 B1 B2 B3 C1 C2 E D1 D2 D3)
qed

text \<open>
  The claim of C6 is made of every dispatch operation, and \<open>stopMotor\<close> is one of
  them. On the running two-motor set \<open>stopMotor()\<close> returns \<open>None\<close> and not a dict
  from motor name to result, and \<open>stopMotor('left')\<close> returns \<open>None\<close> and not the
  result of the motor's \<open>stop\<close>, though it does stop the motor.
\<close>

theorem stopMotor_returns_none_counterexample:
  "fst (stopMotor unit_invoke AllMotors two_running) = Inr NoneVal \<and>
   fst (stopMotor unit_invoke AllMotors two_running) \<noteq> Inr (Dict [(''left'', 0), (''right'', 0)]) \<and>
   fst (stopMotor unit_invoke (OneName ''left'') two_running) = Inr NoneVal \<and>
   fst (stopMotor unit_invoke (OneName ''left'') two_running) \<noteq> Inr (Unwrapped 0) \<and>
   dutycycle (motor_heap (snd (stopMotor unit_invoke (OneName ''left'') two_running)) 0) = 0"
  by (simp add: stopMotor.simps delist.simps contains_def getitem_def call_method_def
      unit_invoke_def two_running_def)

end
